theory Spec2Isabelle
  imports Complex_Main "HOL-Library.Sublist" "HOL-Library.Multiset"
begin

section \<open>List Kamba: cache router and persistence manager\<close>

text \<open>
  A shallow embedding of the service worker (\<^verbatim>\<open>src/unnamed/part_000\<close>), of the
  storage manager (\<^verbatim>\<open>src/unnamed/part_001\<close>) and of the helpers of
  \<^verbatim>\<open>src/unnamed/part_002\<close> they call.

  JavaScript strings are \<^typ>\<open>string\<close>; a \<^typ>\<open>char\<close> stands for one code unit in the
  range 0..255 (Latin-1). A field that may be \<^verbatim>\<open>undefined\<close> or \<^verbatim>\<open>null\<close> is an
  \<^typ>\<open>'a option\<close>. Awaited calls are run to completion in program order.
\<close>

subsection \<open>String helpers of the platform\<close>

definition startsWith :: "string \<Rightarrow> string \<Rightarrow> bool" where
  "startsWith s p = prefix p s"

definition str_includes :: "string \<Rightarrow> string \<Rightarrow> bool" where
  "str_includes s sub = sublist sub s"

subsection \<open>Service worker: cache generations\<close>

definition CACHE_NAME :: string where
  "CACHE_NAME = ''list-kamba-v1.0.0''"

definition STATIC_CACHE :: string where
  "STATIC_CACHE = CACHE_NAME @ ''-static''"

definition DYNAMIC_CACHE :: string where
  "DYNAMIC_CACHE = CACHE_NAME @ ''-dynamic''"

definition RUNTIME_CACHE :: string where
  "RUNTIME_CACHE = CACHE_NAME @ ''-runtime''"

text \<open>
  A response body is the JSON object of the offline API answer, the literal offline page
  of \<^verbatim>\<open>handleOfflineRequest\<close> (its markup is not spelled out), or a body that came from
  the network.
\<close>

datatype body = JsonBody "(string \<times> string) list" | OfflinePage | Fetched string

record response =
  http_status :: nat
  statusText :: string
  contentType :: string
  payload :: body

record request =
  pathname :: string
  mode :: string
  req_method :: string

text \<open>
  A cache maps a request (identified by its path) to a response; the cache storage maps
  generation names to caches, in creation order.
\<close>

type_synonym cache = "(string \<times> response) list"

type_synonym cache_storage = "(string \<times> cache) list"

definition caches_keys :: "cache_storage \<Rightarrow> string list" where
  "caches_keys cs = map fst cs"

definition caches_delete :: "cache_storage \<Rightarrow> string \<Rightarrow> cache_storage" where
  "caches_delete cs name = filter (\<lambda>e. fst e \<noteq> name) cs"

text \<open>\<^verbatim>\<open>caches.open(name)\<close> creates the generation when it does not exist.\<close>

definition caches_open :: "cache_storage \<Rightarrow> string \<Rightarrow> cache_storage" where
  "caches_open cs name = (if name \<in> set (caches_keys cs) then cs else cs @ [(name, [])])"

definition cache_of :: "cache_storage \<Rightarrow> string \<Rightarrow> cache" where
  "cache_of cs name = (case map_of cs name of None \<Rightarrow> [] | Some c \<Rightarrow> c)"

definition cache_match :: "cache \<Rightarrow> string \<Rightarrow> response option" where
  "cache_match c url = map_of c url"

definition cache_put :: "cache_storage \<Rightarrow> string \<Rightarrow> string \<Rightarrow> response \<Rightarrow> cache_storage" where
  "cache_put cs name url r =
     map (\<lambda>e. if fst e = name then (name, (url, r) # filter (\<lambda>p. fst p \<noteq> url) (snd e)) else e) cs"

subsection \<open>Service worker: activate\<close>

definition stale_generation :: "string \<Rightarrow> bool" where
  "stale_generation cacheName \<longleftrightarrow>
     str_includes cacheName ''list-kamba'' \<and> cacheName \<noteq> STATIC_CACHE \<and>
     cacheName \<noteq> DYNAMIC_CACHE \<and> cacheName \<noteq> RUNTIME_CACHE"

text \<open>
  The activate listener: \<^verbatim>\<open>caches.keys()\<close> is enumerated once, and every name that
  passes the test is deleted.
\<close>

definition activate :: "cache_storage \<Rightarrow> cache_storage" where
  "activate cs =
     foldl (\<lambda>acc cacheName. if stale_generation cacheName then caches_delete acc cacheName else acc)
       cs (caches_keys cs)"

subsection \<open>Service worker: offline fallback and stale-while-revalidate\<close>

definition offline_message :: string where
  "offline_message =
     ''Voc'' @ [CHR 0xEA] @ '' est'' @ [CHR 0xE1] @ '' offline. Os dados ser'' @ [CHR 0xE3] @
     ''o sincronizados quando a conex'' @ [CHR 0xE3] @ ''o for restaurada.''"

definition offline_api_response :: response where
  "offline_api_response =
     \<lparr>http_status = 503, statusText = ''Service Unavailable'', contentType = ''application/json'',
      payload = JsonBody [(''error'', ''offline''), (''message'', offline_message)]\<rparr>"

definition offline_page_response :: response where
  "offline_page_response =
     \<lparr>http_status = 200, statusText = '''', contentType = ''text/html'', payload = OfflinePage\<rparr>"

text \<open>
  An operand of JavaScript's \<^verbatim>\<open>||\<close>: a plain value (\<^verbatim>\<open>undefined\<close> is \<open>None\<close>) or a
  promise that settles with a value. A promise is an object, so it is truthy whatever it
  settles with. \<open>await\<close> gives the value an operand settles with.
\<close>

datatype 'a operand = Plain "'a option" | Promise "'a option"

fun truthy :: "'a operand \<Rightarrow> bool" where
  "truthy (Plain None) = False"
| "truthy (Plain (Some v)) = True"
| "truthy (Promise v) = True"

definition js_or :: "'a operand \<Rightarrow> 'a operand \<Rightarrow> 'a operand" where
  "js_or a b = (if truthy a then a else b)"

fun await :: "'a operand \<Rightarrow> 'a option" where
  "await (Plain v) = v"
| "await (Promise v) = v"

text \<open>
  \<^verbatim>\<open>handleOfflineRequest\<close>. For a navigation the static generation is opened (and so
  created when absent) and \<^verbatim>\<open>cache.match('/index.html') || cache.match('/')\<close> is
  returned; both operands are promises.
\<close>

definition handleOfflineRequest :: "cache_storage \<Rightarrow> request \<Rightarrow> response option \<times> cache_storage" where
  "handleOfflineRequest cs req =
     (if mode req = ''navigate'' then
        (let cs' = caches_open cs STATIC_CACHE; c = cache_of cs' STATIC_CACHE
         in (await (js_or (Promise (cache_match c ''/index.html'')) (Promise (cache_match c ''/''))), cs'))
      else if startsWith (pathname req) ''/api/'' then (Some offline_api_response, cs)
      else (Some offline_page_response, cs))"

text \<open>
  \<^verbatim>\<open>staleWhileRevalidate\<close>. \<open>fetch\<close> is the network: \<open>None\<close> is a rejected fetch. The
  \<^verbatim>\<open>.then\<close> handler stores a 200 response and passes the response on; the
  \<^verbatim>\<open>.catch\<close> handler only logs, so the chained promise is fulfilled with
  \<^verbatim>\<open>undefined\<close> after a failure. The last operand of \<^verbatim>\<open>||\<close> is evaluated only when
  the first two are falsy.
\<close>

definition background_fetch ::
  "(request \<Rightarrow> response option) \<Rightarrow> cache_storage \<Rightarrow> request \<Rightarrow> response option \<times> cache_storage" where
  "background_fetch fetch cs req =
     (case fetch req of
        Some networkResponse \<Rightarrow>
          (Some networkResponse,
           if http_status networkResponse = 200 then cache_put cs RUNTIME_CACHE (pathname req) networkResponse
           else cs)
      | None \<Rightarrow> (None, cs))"

definition staleWhileRevalidate ::
  "(request \<Rightarrow> response option) \<Rightarrow> cache_storage \<Rightarrow> request \<Rightarrow> response option \<times> cache_storage" where
  "staleWhileRevalidate fetch cs req =
     (let cs1 = caches_open cs RUNTIME_CACHE;
          cachedResponse = Plain (cache_match (cache_of cs1 RUNTIME_CACHE) (pathname req));
          (settled, cs2) = background_fetch fetch cs1 req;
          fetchPromise = Promise settled
      in if truthy cachedResponse then (await cachedResponse, cs2)
         else if truthy fetchPromise then (await fetchPromise, cs2)
         else handleOfflineRequest cs2 req)"

subsection \<open>Service worker: install, request handling, messages\<close>

text \<open>
  The lists of the worker. Requests are same-origin; a request made from a URL alone
  (\<^verbatim>\<open>cache.addAll\<close>, \<^verbatim>\<open>fetch(url)\<close>) has the mode \<^verbatim>\<open>cors\<close>.
\<close>

definition STATIC_FILES :: "string list" where
  "STATIC_FILES =
     [''/'', ''/index.html'', ''/manifest.json'',
      ''/assets/css/variables.css'', ''/assets/css/base.css'', ''/assets/css/components.css'',
      ''/assets/css/themes.css'', ''/assets/css/animations.css'',
      ''/assets/js/utils.js'', ''/assets/js/storage.js'', ''/assets/js/tasks.js'',
      ''/assets/js/notifications.js'', ''/assets/js/app.js'',
      ''/assets/icons/icon-192x192.png'', ''/assets/icons/icon-512x512.png'']"

definition NETWORK_FIRST_ROUTES :: "string list" where
  "NETWORK_FIRST_ROUTES = [''/api/'', ''/sync/'', ''/analytics/'']"

definition CACHE_FIRST_ROUTES :: "string list" where
  "CACHE_FIRST_ROUTES = [''/assets/'', ''/icons/'', ''/images/'', ''/sounds/'']"

definition isStaticFile :: "string \<Rightarrow> bool" where
  "isStaticFile p = list_ex (\<lambda>file. file = p) STATIC_FILES"

definition isNetworkFirstRoute :: "string \<Rightarrow> bool" where
  "isNetworkFirstRoute p = list_ex (\<lambda>route. startsWith p route) NETWORK_FIRST_ROUTES"

definition isCacheFirstRoute :: "string \<Rightarrow> bool" where
  "isCacheFirstRoute p = list_ex (\<lambda>route. startsWith p route) CACHE_FIRST_ROUTES"

definition url_request :: "string \<Rightarrow> request" where
  "url_request url = \<lparr>pathname = url, mode = ''cors'', req_method = ''GET''\<rparr>"

text \<open>
  \<^verbatim>\<open>cache.addAll(STATIC_FILES)\<close> of the install listener: every file is fetched, and
  unless every fetch gives a response with an ok status (200 to 299, and not the partial
  206) nothing is stored; otherwise all responses are stored at once. The static generation has no other writer.
\<close>

definition response_ok :: "response \<Rightarrow> bool" where
  "response_ok r \<longleftrightarrow> 200 \<le> http_status r \<and> http_status r \<le> 299 \<and> http_status r \<noteq> 206"

fun fetch_all :: "(request \<Rightarrow> response option) \<Rightarrow> string list \<Rightarrow> (string \<times> response) list option" where
  "fetch_all fetch [] = Some []"
| "fetch_all fetch (url # urls) =
     (case fetch (url_request url) of
        None \<Rightarrow> None
      | Some r \<Rightarrow>
          if response_ok r
          then (case fetch_all fetch urls of None \<Rightarrow> None | Some rs \<Rightarrow> Some ((url, r) # rs))
          else None)"

definition put_entry :: "cache \<Rightarrow> string \<times> response \<Rightarrow> cache" where
  "put_entry c e = e # filter (\<lambda>p. fst p \<noteq> fst e) c"

definition install :: "(request \<Rightarrow> response option) \<Rightarrow> cache_storage \<Rightarrow> bool \<times> cache_storage" where
  "install fetch cs =
     (let cs1 = caches_open cs STATIC_CACHE
      in case fetch_all fetch STATIC_FILES of
           None \<Rightarrow> (False, cs1)
         | Some entries \<Rightarrow>
             (True, map (\<lambda>e. if fst e = STATIC_CACHE then (STATIC_CACHE, foldl put_entry (snd e) entries)
                             else e) cs1))"

text \<open>
  \<^verbatim>\<open>caches.match\<close> looks through the generations in creation order. \<^verbatim>\<open>cacheFirst\<close>
  and \<^verbatim>\<open>networkFirst\<close> store a 200 response in the dynamic and in the runtime
  generation; a failed fetch is the \<^verbatim>\<open>catch\<close> branch.
\<close>

fun caches_match :: "cache_storage \<Rightarrow> string \<Rightarrow> response option" where
  "caches_match [] url = None"
| "caches_match (e # cs) url =
     (case cache_match (snd e) url of Some r \<Rightarrow> Some r | None \<Rightarrow> caches_match cs url)"

definition cacheFirst ::
  "(request \<Rightarrow> response option) \<Rightarrow> cache_storage \<Rightarrow> request \<Rightarrow> response option \<times> cache_storage" where
  "cacheFirst fetch cs req =
     (case caches_match cs (pathname req) of
        Some cachedResponse \<Rightarrow> (Some cachedResponse, cs)
      | None \<Rightarrow>
          (case fetch req of
             None \<Rightarrow> handleOfflineRequest cs req
           | Some networkResponse \<Rightarrow>
               (Some networkResponse,
                if http_status networkResponse = 200
                then cache_put (caches_open cs DYNAMIC_CACHE) DYNAMIC_CACHE (pathname req) networkResponse
                else cs)))"

definition networkFirst ::
  "(request \<Rightarrow> response option) \<Rightarrow> cache_storage \<Rightarrow> request \<Rightarrow> response option \<times> cache_storage" where
  "networkFirst fetch cs req =
     (case fetch req of
        Some networkResponse \<Rightarrow>
          (Some networkResponse,
           if http_status networkResponse = 200
           then cache_put (caches_open cs RUNTIME_CACHE) RUNTIME_CACHE (pathname req) networkResponse
           else cs)
      | None \<Rightarrow>
          (case caches_match cs (pathname req) of
             Some cachedResponse \<Rightarrow> (Some cachedResponse, cs)
           | None \<Rightarrow> handleOfflineRequest cs req))"

text \<open>
  The fetch listener: a request that is not a GET is not answered by the worker
  (\<open>None\<close>); the others are answered by the strategy of their route.
\<close>

definition on_fetch ::
  "(request \<Rightarrow> response option) \<Rightarrow> cache_storage \<Rightarrow> request \<Rightarrow> response option option \<times> cache_storage" where
  "on_fetch fetch cs req =
     (if req_method req \<noteq> ''GET'' then (None, cs)
      else (let (answer, cs') =
                  (if isStaticFile (pathname req) then cacheFirst fetch cs req
                   else if isNetworkFirstRoute (pathname req) then networkFirst fetch cs req
                   else if isCacheFirstRoute (pathname req) then cacheFirst fetch cs req
                   else staleWhileRevalidate fetch cs req)
            in (Some answer, cs')))"

text \<open>The message handlers \<^verbatim>\<open>CACHE_URLS\<close> and \<^verbatim>\<open>CLEAR_CACHE\<close>.\<close>

definition cacheUrls :: "(request \<Rightarrow> response option) \<Rightarrow> cache_storage \<Rightarrow> string list \<Rightarrow> cache_storage" where
  "cacheUrls fetch cs urls =
     foldl (\<lambda>acc url. case fetch (url_request url) of
                         None \<Rightarrow> acc
                       | Some r \<Rightarrow> if http_status r = 200 then cache_put acc DYNAMIC_CACHE url r else acc)
       (caches_open cs DYNAMIC_CACHE) urls"

definition clearCaches :: "cache_storage \<Rightarrow> cache_storage" where
  "clearCaches cs =
     foldl caches_delete cs (filter (\<lambda>name. str_includes name ''list-kamba'') (caches_keys cs))"

text \<open>
  The events of the worker that reach the cache storage, and the storage after a
  sequence of them. Every event carries the network as it answers at that time.
\<close>

datatype sw_event =
    Install "request \<Rightarrow> response option"
  | Activate
  | Fetch "request \<Rightarrow> response option" request
  | CacheUrls "request \<Rightarrow> response option" "string list"
  | ClearCache

fun sw_step :: "cache_storage \<Rightarrow> sw_event \<Rightarrow> cache_storage" where
  "sw_step cs (Install fetch) = snd (install fetch cs)"
| "sw_step cs Activate = activate cs"
| "sw_step cs (Fetch fetch req) = snd (on_fetch fetch cs req)"
| "sw_step cs (CacheUrls fetch urls) = cacheUrls fetch cs urls"
| "sw_step cs ClearCache = clearCaches cs"

definition sw_run :: "cache_storage \<Rightarrow> sw_event list \<Rightarrow> cache_storage" where
  "sw_run cs evs = foldl sw_step cs evs"

text \<open>
  The static generation, and the property that it holds the index document whenever it
  holds the root document.
\<close>

definition app_shell :: "cache_storage \<Rightarrow> cache" where
  "app_shell cs = cache_of cs STATIC_CACHE"

definition shell_consistent :: "cache_storage \<Rightarrow> bool" where
  "shell_consistent cs =
     (case cache_match (app_shell cs) ''/index.html'' of
        Some r \<Rightarrow> True
      | None \<Rightarrow> cache_match (app_shell cs) ''/'' = None)"

definition shell_response :: response where
  "shell_response = \<lparr>http_status = 200, statusText = ''OK'', contentType = ''text/html'', payload = Fetched ''shell''\<rparr>"

subsection \<open>Helpers of the utility module\<close>

text \<open>
  \<^verbatim>\<open>String.prototype.trim\<close> removes white space at both ends; in the Latin-1 range
  the white-space code units are TAB, LF, VT, FF, CR, SPACE and NBSP.
\<close>

definition is_space :: "char \<Rightarrow> bool" where
  "is_space c \<longleftrightarrow> c \<in> {CHR 0x09, CHR 0x0A, CHR 0x0B, CHR 0x0C, CHR 0x0D, CHR 0x20, CHR 0xA0}"

definition trim :: "string \<Rightarrow> string" where
  "trim s = rev (dropWhile is_space (rev (dropWhile is_space s)))"

text \<open>
  \<^verbatim>\<open>sanitizeHtml\<close> assigns the string to \<^verbatim>\<open>textContent\<close> of a fresh element and
  reads \<^verbatim>\<open>innerHTML\<close> back: the browser serialises the text node, escaping the
  ampersand, the angle brackets and the no-break space.
\<close>

definition escape_char :: "char \<Rightarrow> string" where
  "escape_char c =
     (if c = CHR ''&'' then ''&amp;''
      else if c = CHR 0xA0 then ''&nbsp;''
      else if c = CHR ''<'' then ''&lt;''
      else if c = CHR ''>'' then ''&gt;''
      else [c])"

definition sanitizeHtml :: "string option \<Rightarrow> string" where
  "sanitizeHtml str = (case str of None \<Rightarrow> [] | Some s \<Rightarrow> concat (map escape_char s))"

definition digit_char :: "nat \<Rightarrow> char" where
  "digit_char d = char_of (48 + d)"

fun decimal :: "nat \<Rightarrow> string" where
  "decimal n = (if n < 10 then [digit_char n] else decimal (n div 10) @ [digit_char (n mod 10)])"

declare decimal.simps [simp del]

definition number_toString :: "int \<Rightarrow> string" where
  "number_toString i = (if i < 0 then CHR ''-'' # decimal (nat (- i)) else decimal (nat i))"

definition taskCategories :: "string list" where
  "taskCategories =
     [''pessoal'', ''trabalho'', ''familia'', ''saude'', ''financas'', ''educacao'', ''lazer'', ''outros'']"

text \<open>
  Functions of the platform whose tables are not part of the repository:
  \<^verbatim>\<open>toLowerCase\<close>, \<^verbatim>\<open>normalize('NFD')\<close> followed by the removal of the combining
  marks, \<^verbatim>\<open>toDateString\<close> (the local calendar day of an instant), and the calendar
  arithmetic of \<^verbatim>\<open>Date\<close>: \<open>setDate_back t n\<close> is the instant that
  \<^verbatim>\<open>d.setDate(d.getDate() - n)\<close> leaves in a \<^verbatim>\<open>Date\<close> that held the instant \<open>t\<close>,
  that is \<open>n\<close> calendar days earlier at the same local wall-clock time.
\<close>

record platform =
  toLowerCase :: "string \<Rightarrow> string"
  nfd_strip :: "string \<Rightarrow> string"
  toDateString :: "int \<Rightarrow> string"
  setDate_back :: "int \<Rightarrow> int \<Rightarrow> int"

definition nonempty :: "string option \<Rightarrow> bool" where
  "nonempty v \<longleftrightarrow> (case v of None \<Rightarrow> False | Some s \<Rightarrow> s \<noteq> [])"

definition removeAccents :: "platform \<Rightarrow> string \<Rightarrow> string" where
  "removeAccents pf str = (if str = [] then [] else nfd_strip pf str)"

definition searchMatch :: "platform \<Rightarrow> string option \<Rightarrow> string \<Rightarrow> bool" where
  "searchMatch pf text_opt search =
     (case text_opt of
        None \<Rightarrow> False
      | Some txt \<Rightarrow>
          if txt = [] \<or> search = [] then False
          else str_includes (removeAccents pf (toLowerCase pf txt))
                 (removeAccents pf (toLowerCase pf search)))"

subsection \<open>Storage manager: data\<close>

text \<open>
  An instant is its number of milliseconds since the epoch; the ISO-8601 string that
  \<^verbatim>\<open>toISOString\<close> gives and \<^verbatim>\<open>new Date(string)\<close> reads back is identified with it.
\<close>

record task =
  task_id :: "string option"
  title :: "string option"
  description :: "string option"
  category :: "string option"
  priority :: "string option"
  status :: "string option"
  dueDate :: "int option"
  createdAt :: "int option"
  updatedAt :: "int option"
  completedAt :: "int option"

record setting =
  skey :: string
  svalue :: string

datatype jsval = JUndefined | JNull | JNaN | JBool bool | JNum int | JStr string | JDate int

record event =
  event_id :: string
  etype :: string
  edata :: "(string \<times> jsval) list"
  date :: int
  timestamp :: int

text \<open>
  The operation of a queued item is a thunk of the caller. Of its behaviour the queue
  observes only whether an invocation throws; the thunk is modelled by that, as a
  function of the number of earlier invocations, which is its private state.
\<close>

datatype thunk = Thunk (calls: nat) (throws_at: "nat \<Rightarrow> bool")


record item =
  item_id :: string
  operation :: thunk
  item_timestamp :: int

text \<open>A value of the key-value store: one record, or an array of records.\<close>

datatype 'a stored = Rec 'a | Arr "'a list"

text \<open>
  The state of the manager and of what it reaches. \<open>db\<close> tells whether \<^verbatim>\<open>this.db\<close>
  is set; the \<open>idb\<close> fields are the object stores of the database (keys are unique; a
  store is listed in the order in which its keys were first put), the \<open>kv\<close> fields are the
  entries of \<^verbatim>\<open>localStorage\<close> under the keys of each store name. \<open>clock\<close> and \<open>rng\<close>
  are the successive readings of \<^verbatim>\<open>Date.now()\<close> and of
  \<^verbatim>\<open>Math.random().toString(36).substr(2, 9)\<close>. Storage requests succeed.
\<close>

record state =
  db :: bool
  idb_tasks :: "task list"
  idb_settings :: "setting list"
  idb_analytics :: "event list"
  kv_tasks :: "string \<rightharpoonup> task stored"
  kv_settings :: "string \<rightharpoonup> setting stored"
  kv_analytics :: "string \<rightharpoonup> event stored"
  kv_syncQueue :: "(string \<times> int) list option"
  isOnline :: bool
  syncQueue :: "item list"
  clock :: "nat \<Rightarrow> int"
  ticks :: nat
  rng :: "nat \<Rightarrow> string"
  draws :: nat

datatype error = TitleRequired | InvalidFormat | SyntaxError

text \<open>
  A manager whose database has just been opened, empty, with nothing in the key-value
  store, for a given clock and random source; and one for which opening the database
  failed.
\<close>

definition fresh :: "(nat \<Rightarrow> int) \<Rightarrow> (nat \<Rightarrow> string) \<Rightarrow> state" where
  "fresh c r =
     \<lparr>db = True, idb_tasks = [], idb_settings = [], idb_analytics = [],
      kv_tasks = Map.empty, kv_settings = Map.empty, kv_analytics = Map.empty,
      kv_syncQueue = None, isOnline = True, syncQueue = [],
      clock = c, ticks = 0, rng = r, draws = 0\<rparr>"

definition fresh_fallback :: "(nat \<Rightarrow> int) \<Rightarrow> (nat \<Rightarrow> string) \<Rightarrow> state" where
  "fresh_fallback c r = (fresh c r)\<lparr>db := False\<rparr>"

definition ascii_platform :: platform where
  "ascii_platform =
     \<lparr>toLowerCase = (\<lambda>s. s), nfd_strip = (\<lambda>s. s), toDateString = (\<lambda>t. number_toString (t div 86400000)),
      setDate_back = (\<lambda>t n. t - n * 86400000)\<rparr>"

definition blank_task :: task where
  "blank_task =
     \<lparr>task_id = None, title = None, description = None, category = None, priority = None,
      status = None, dueDate = None, createdAt = None, updatedAt = None, completedAt = None\<rparr>"

subsection \<open>Storage manager: clock, identifiers, stores\<close>

definition Date_now :: "state \<Rightarrow> int \<times> state" where
  "Date_now s = (clock s (ticks s), s\<lparr>ticks := Suc (ticks s)\<rparr>)"

definition Utils_Date_now :: "state \<Rightarrow> int \<times> state" where
  "Utils_Date_now s = (let (t, s1) = Date_now s in (t + 60 * 60 * 1000, s1))"

definition Math_random :: "state \<Rightarrow> string \<times> state" where
  "Math_random s = (rng s (draws s), s\<lparr>draws := Suc (draws s)\<rparr>)"

definition generateId :: "state \<Rightarrow> string \<times> state" where
  "generateId s =
     (let (r, s1) = Math_random s; (t, s2) = Date_now s1
      in (''id_'' @ r @ ''_'' @ number_toString t, s2))"

text \<open>\<^verbatim>\<open>store.put\<close>, \<^verbatim>\<open>store.get\<close> and \<^verbatim>\<open>store.delete\<close> on a store with key path \<open>key\<close>.\<close>

fun put_by :: "('a \<Rightarrow> 'k) \<Rightarrow> 'a \<Rightarrow> 'a list \<Rightarrow> 'a list" where
  "put_by key r [] = [r]"
| "put_by key r (x # xs) = (if key x = key r then r # xs else x # put_by key r xs)"

definition get_by :: "('a \<Rightarrow> 'k) \<Rightarrow> 'k \<Rightarrow> 'a list \<Rightarrow> 'a option" where
  "get_by key k xs = find (\<lambda>x. key x = k) xs"

definition delete_by :: "('a \<Rightarrow> 'k) \<Rightarrow> 'k \<Rightarrow> 'a list \<Rightarrow> 'a list" where
  "delete_by key k xs = filter (\<lambda>x. key x \<noteq> k) xs"

text \<open>The key of the fallback: the store name, then \<^verbatim>\<open>'_' + id\<close> when the id is truthy.\<close>

definition kv_key :: "string \<Rightarrow> string option \<Rightarrow> string" where
  "kv_key storeName k =
     (case k of None \<Rightarrow> storeName | Some i \<Rightarrow> if i = [] then storeName else storeName @ ''_'' @ i)"

definition saveToStore_tasks :: "state \<Rightarrow> task \<Rightarrow> state" where
  "saveToStore_tasks s data =
     (if \<not> db s then s\<lparr>kv_tasks := (kv_tasks s)(kv_key ''tasks'' (task_id data) \<mapsto> Rec data)\<rparr>
      else s\<lparr>idb_tasks := put_by task_id data (idb_tasks s)\<rparr>)"

definition saveToStore_settings :: "state \<Rightarrow> setting \<Rightarrow> state" where
  "saveToStore_settings s data =
     (if \<not> db s then s\<lparr>kv_settings := (kv_settings s)(kv_key ''settings'' None \<mapsto> Rec data)\<rparr>
      else s\<lparr>idb_settings := put_by skey data (idb_settings s)\<rparr>)"

definition saveToStore_analytics :: "state \<Rightarrow> event \<Rightarrow> state" where
  "saveToStore_analytics s data =
     (if \<not> db s
      then s\<lparr>kv_analytics := (kv_analytics s)(kv_key ''analytics'' (Some (event_id data)) \<mapsto> Rec data)\<rparr>
      else s\<lparr>idb_analytics := put_by event_id data (idb_analytics s)\<rparr>)"

text \<open>
  \<^verbatim>\<open>getFromStore\<close>: with a truthy key one record (or nothing), without one all the
  records of the store; in the fallback whatever the key-value store holds under the key.
\<close>

definition getFromStore_tasks :: "state \<Rightarrow> string option \<Rightarrow> task stored option" where
  "getFromStore_tasks s k =
     (if \<not> db s then kv_tasks s (kv_key ''tasks'' k)
      else if nonempty k then map_option Rec (get_by task_id k (idb_tasks s))
      else Some (Arr (idb_tasks s)))"

definition getFromStore_settings :: "state \<Rightarrow> string option \<Rightarrow> setting stored option" where
  "getFromStore_settings s k =
     (if \<not> db s then kv_settings s (kv_key ''settings'' k)
      else (case k of
              None \<Rightarrow> Some (Arr (idb_settings s))
            | Some i \<Rightarrow> if i = [] then Some (Arr (idb_settings s))
                        else map_option Rec (get_by skey i (idb_settings s))))"

definition getFromStore_analytics :: "state \<Rightarrow> string option \<Rightarrow> event stored option" where
  "getFromStore_analytics s k =
     (if \<not> db s then kv_analytics s (kv_key ''analytics'' k)
      else (case k of
              None \<Rightarrow> Some (Arr (idb_analytics s))
            | Some i \<Rightarrow> if i = [] then Some (Arr (idb_analytics s))
                        else map_option Rec (get_by event_id i (idb_analytics s))))"

definition deleteFromStore_analytics :: "state \<Rightarrow> string \<Rightarrow> state" where
  "deleteFromStore_analytics s k =
     (if \<not> db s then s\<lparr>kv_analytics := (kv_analytics s)((''analytics'' @ ''_'' @ k) := None)\<rparr>
      else s\<lparr>idb_analytics := delete_by event_id k (idb_analytics s)\<rparr>)"

text \<open>The \<^verbatim>\<open>Array.isArray\<close> normalisation of \<^verbatim>\<open>getTasks\<close> and \<^verbatim>\<open>getAnalytics\<close>.\<close>

definition as_array :: "'a stored option \<Rightarrow> 'a list" where
  "as_array v = (case v of None \<Rightarrow> [] | Some (Rec x) \<Rightarrow> [x] | Some (Arr xs) \<Rightarrow> xs)"

subsection \<open>Storage manager: analytics and settings\<close>

definition trackEvent :: "state \<Rightarrow> string \<Rightarrow> (string \<times> jsval) list \<Rightarrow> bool \<times> state" where
  "trackEvent s type_tag data =
     (let (new_id, s1) = generateId s;
          (d, s2) = Utils_Date_now s1;
          (ts, s3) = Date_now s2;
          ev = \<lparr>event_id = new_id, etype = type_tag, edata = data, date = d, timestamp = ts\<rparr>
      in (True, saveToStore_analytics s3 ev))"

record analytics_filters =
  a_type :: "string option"
  a_startDate :: "int option"
  a_endDate :: "int option"

definition no_analytics_filters :: analytics_filters where
  "no_analytics_filters = \<lparr>a_type = None, a_startDate = None, a_endDate = None\<rparr>"

definition getAnalytics :: "state \<Rightarrow> analytics_filters \<Rightarrow> event list" where
  "getAnalytics s filters =
     (let events = as_array (getFromStore_analytics s None);
          events = (case a_type filters of
                      None \<Rightarrow> events
                    | Some ty \<Rightarrow> if ty = [] then events else filter (\<lambda>e. etype e = ty) events);
          events = (case a_startDate filters of
                      None \<Rightarrow> events
                    | Some d \<Rightarrow> filter (\<lambda>e. date e \<ge> d) events);
          events = (case a_endDate filters of
                      None \<Rightarrow> events
                    | Some d \<Rightarrow> filter (\<lambda>e. date e \<le> d) events)
      in events)"

definition setSetting :: "state \<Rightarrow> string \<Rightarrow> string \<Rightarrow> bool \<times> state" where
  "setSetting s k v = (True, saveToStore_settings s \<lparr>skey = k, svalue = v\<rparr>)"

text \<open>
  \<^verbatim>\<open>getAllSettings\<close> builds an object; its entries are kept in insertion order, a
  repeated key overwriting in place.
\<close>

definition getAllSettings :: "state \<Rightarrow> (string \<times> string) list" where
  "getAllSettings s =
     (case getFromStore_settings s None of
        Some (Arr settings) \<Rightarrow> foldl (\<lambda>result st. put_by fst (skey st, svalue st) result) [] settings
      | _ \<Rightarrow> [])"

subsection \<open>Storage manager: tasks\<close>

record filters =
  f_status :: "string option"
  f_category :: "string option"
  f_priority :: "string option"
  f_today :: bool
  f_search :: "string option"

definition no_filters :: filters where
  "no_filters = \<lparr>f_status = None, f_category = None, f_priority = None, f_today = False, f_search = None\<rparr>"

text \<open>
  The comparator of \<^verbatim>\<open>getTasks\<close>. A difference of dates is \<^verbatim>\<open>NaN\<close> (\<open>None\<close>) when
  one of the dates is missing.
\<close>

definition priorityOrder :: "string option \<Rightarrow> int" where
  "priorityOrder p =
     (if p = Some ''alta'' then 3 else if p = Some ''media'' then 2 else if p = Some ''baixa'' then 1
      else 1)"

definition date_minus :: "int option \<Rightarrow> int option \<Rightarrow> int option" where
  "date_minus x y = (case (x, y) of (Some a, Some b) \<Rightarrow> Some (a - b) | _ \<Rightarrow> None)"

definition compareTasks :: "task \<Rightarrow> task \<Rightarrow> int option" where
  "compareTasks a b =
     (let aPriority = priorityOrder (priority a); bPriority = priorityOrder (priority b)
      in if aPriority \<noteq> bPriority then Some (bPriority - aPriority)
         else if dueDate a \<noteq> None \<and> dueDate b \<noteq> None then date_minus (dueDate a) (dueDate b)
         else date_minus (createdAt b) (createdAt a))"

text \<open>
  \<^verbatim>\<open>Array.prototype.sort\<close> with a comparator: \<open>x\<close> goes before \<open>y\<close> when the
  comparator is negative, and \<^verbatim>\<open>NaN\<close> counts as zero. The sort is stable. It is modelled
  as the insertion sort that places each element after the elements it does not have to
  precede; for a comparator that is consistent on the array, every conforming engine
  returns this result.
\<close>

definition precedes :: "('a \<Rightarrow> 'a \<Rightarrow> int option) \<Rightarrow> 'a \<Rightarrow> 'a \<Rightarrow> bool" where
  "precedes cmp x y = (case cmp x y of None \<Rightarrow> False | Some v \<Rightarrow> v < 0)"

fun sort_insert :: "('a \<Rightarrow> 'a \<Rightarrow> int option) \<Rightarrow> 'a \<Rightarrow> 'a list \<Rightarrow> 'a list" where
  "sort_insert cmp x [] = [x]"
| "sort_insert cmp x (y # ys) = (if precedes cmp x y then x # y # ys else y # sort_insert cmp x ys)"

definition array_sort :: "('a \<Rightarrow> 'a \<Rightarrow> int option) \<Rightarrow> 'a list \<Rightarrow> 'a list" where
  "array_sort cmp xs = foldl (\<lambda>acc x. sort_insert cmp x acc) [] xs"

definition filtered_tasks :: "platform \<Rightarrow> state \<Rightarrow> filters \<Rightarrow> task list \<times> state" where
  "filtered_tasks pf s fs =
     (let tasks = as_array (getFromStore_tasks s None);
          tasks = (if nonempty (f_status fs) then filter (\<lambda>t. status t = f_status fs) tasks else tasks);
          tasks = (if nonempty (f_category fs) then filter (\<lambda>t. category t = f_category fs) tasks
                   else tasks);
          tasks = (if nonempty (f_priority fs) then filter (\<lambda>t. priority t = f_priority fs) tasks
                   else tasks);
          (tasks, s1) =
             (if f_today fs then
                (let (now, s') = Utils_Date_now s; today = toDateString pf now
                 in (filter (\<lambda>t. case dueDate t of None \<Rightarrow> False
                                  | Some d \<Rightarrow> toDateString pf d = today) tasks, s'))
              else (tasks, s));
          tasks = (case f_search fs of
                     None \<Rightarrow> tasks
                   | Some q \<Rightarrow>
                       if q = [] then tasks
                       else (let searchTerm = toLowerCase pf q
                             in filter (\<lambda>t. searchMatch pf (title t) searchTerm \<or>
                                            searchMatch pf (description t) searchTerm) tasks))
      in (tasks, s1))"

definition getTasks :: "platform \<Rightarrow> state \<Rightarrow> filters \<Rightarrow> task list \<times> state" where
  "getTasks pf s fs =
     (let (tasks, s1) = filtered_tasks pf s fs in (array_sort compareTasks tasks, s1))"

text \<open>
  \<^verbatim>\<open>getTask\<close>: with the database, \<^verbatim>\<open>getFromStore(tasks, id)\<close> (all the records when
  the id is falsy); without it, the first task of \<^verbatim>\<open>getTasks()\<close> with that id.
\<close>

definition getTask :: "platform \<Rightarrow> state \<Rightarrow> string \<Rightarrow> task stored option \<times> state" where
  "getTask pf s k =
     (if db s then (getFromStore_tasks s (Some k), s)
      else (let (tasks, s1) = getTasks pf s no_filters
            in (map_option Rec (find (\<lambda>t. task_id t = Some k) tasks), s1)))"

definition blank_title :: "task \<Rightarrow> bool" where
  "blank_title t \<longleftrightarrow> (case title t of None \<Rightarrow> True | Some s \<Rightarrow> s = [] \<or> trim s = [])"

definition coerce :: "string list \<Rightarrow> string \<Rightarrow> string option \<Rightarrow> string option" where
  "coerce valid dflt v = (case v of None \<Rightarrow> Some dflt | Some x \<Rightarrow> if x \<in> set valid then Some x else Some dflt)"

text \<open>The block of \<^verbatim>\<open>saveTask\<close> that sets the defaults: id, \<^verbatim>\<open>createdAt\<close>, \<^verbatim>\<open>updatedAt\<close>.\<close>

definition set_defaults :: "state \<Rightarrow> task \<Rightarrow> task \<times> state" where
  "set_defaults s t =
     (let (t1, s1) = (if \<not> nonempty (task_id t)
                      then (let (new_id, s') = generateId s in (t\<lparr>task_id := Some new_id\<rparr>, s'))
                      else (t, s));
          (t2, s2) = (if createdAt t1 = None
                      then (let (now, s') = Utils_Date_now s1 in (t1\<lparr>createdAt := Some now\<rparr>, s'))
                      else (t1, s1));
          (now, s3) = Utils_Date_now s2
      in (t2\<lparr>updatedAt := Some now\<rparr>, s3))"

text \<open>The blocks that sanitize the texts and validate priority, category and status.\<close>

definition sanitize_and_validate :: "task \<Rightarrow> task" where
  "sanitize_and_validate t =
     (let t4 = t\<lparr>title := Some (sanitizeHtml (title t))\<rparr>;
          t5 = t4\<lparr>description :=
                    Some (sanitizeHtml (if nonempty (description t4) then description t4 else Some []))\<rparr>;
          t6 = t5\<lparr>priority := coerce [''alta'', ''media'', ''baixa''] ''media'' (priority t5)\<rparr>;
          t7 = t6\<lparr>category := coerce taskCategories ''outros'' (category t6)\<rparr>
      in t7\<lparr>status := coerce [''pending'', ''completed'', ''archived''] ''pending'' (status t7)\<rparr>)"

definition task_saved_data :: "task \<Rightarrow> (string \<times> jsval) list" where
  "task_saved_data t =
     [(''taskId'', case task_id t of None \<Rightarrow> JUndefined | Some i \<Rightarrow> JStr i),
      (''category'', case category t of None \<Rightarrow> JUndefined | Some c \<Rightarrow> JStr c),
      (''priority'', case priority t of None \<Rightarrow> JUndefined | Some p \<Rightarrow> JStr p)]"

definition saveTask :: "state \<Rightarrow> task \<Rightarrow> (error + task) \<times> state" where
  "saveTask s t =
     (if blank_title t then (Inl TitleRequired, s)
      else
        (let (t3, s3) = set_defaults s t;
             t8 = sanitize_and_validate t3;
             s4 = saveToStore_tasks s3 t8;
             (ok, s5) = trackEvent s4 ''task_saved'' (task_saved_data t8)
         in (Inr t8, s5)))"

text \<open>Ceiling of a quotient of integers, for a positive divisor.\<close>

definition ceil_div :: "int \<Rightarrow> int \<Rightarrow> int" where
  "ceil_div a b = - ((- a) div b)"

definition daysToComplete :: "task \<Rightarrow> jsval" where
  "daysToComplete t =
     (case dueDate t of
        None \<Rightarrow> JNull
      | Some due \<Rightarrow>
          (case date_minus (completedAt t) (createdAt t) of
             None \<Rightarrow> JNaN
           | Some elapsed \<Rightarrow> JNum (ceil_div elapsed (1000 * 60 * 60 * 24))))"

definition task_completed_data :: "string \<Rightarrow> task \<Rightarrow> (string \<times> jsval) list" where
  "task_completed_data k saved =
     [(''taskId'', JStr k),
      (''category'', case category saved of None \<Rightarrow> JUndefined | Some c \<Rightarrow> JStr c),
      (''priority'', case priority saved of None \<Rightarrow> JUndefined | Some p \<Rightarrow> JStr p),
      (''daysToComplete'', daysToComplete saved)]"

text \<open>
  \<^verbatim>\<open>completeTask\<close>. When \<^verbatim>\<open>getTask\<close> gave the array of all records, the array has
  no title and \<^verbatim>\<open>saveTask\<close> throws; a throw is caught and answered by \<^verbatim>\<open>false\<close>.
\<close>

definition completeTask :: "platform \<Rightarrow> state \<Rightarrow> string \<Rightarrow> bool \<times> state" where
  "completeTask pf s k =
     (let (found, s1) = getTask pf s k
      in case found of
           None \<Rightarrow> (False, s1)
         | Some (Arr records) \<Rightarrow> (let (now, s2) = Utils_Date_now s1 in (False, s2))
         | Some (Rec t) \<Rightarrow>
             (let (now, s2) = Utils_Date_now s1;
                  t' = t\<lparr>status := Some ''completed'', completedAt := Some now\<rparr>
              in case saveTask s2 t' of
                   (Inl e, s3) \<Rightarrow> (False, s3)
                 | (Inr saved, s3) \<Rightarrow>
                     (let (ok, s4) = trackEvent s3 ''task_completed'' (task_completed_data k saved)
                      in (True, s4))))"

subsection \<open>Storage manager: export and import\<close>

text \<open>
  The text that \<^verbatim>\<open>exportData\<close> produces and \<^verbatim>\<open>importData\<close> parses is represented
  by what \<^verbatim>\<open>JSON.parse\<close> makes of it: \<open>Malformed\<close> when parsing throws (or the value
  has no properties), else the fields that are read. \<open>doc_tasks\<close> is \<open>None\<close> when the
  \<^verbatim>\<open>tasks\<close> field is missing or not an array, \<open>doc_settings\<close> is \<open>None\<close> when the
  \<^verbatim>\<open>settings\<close> field is falsy. A field that is \<^verbatim>\<open>undefined\<close> is left out by
  \<^verbatim>\<open>JSON.stringify\<close> and is \<^verbatim>\<open>undefined\<close> again after parsing.
\<close>

record document =
  doc_tasks :: "task list option"
  doc_settings :: "(string \<times> string) list option"
  doc_analytics :: "event list"
  doc_exportDate :: "int option"
  doc_version :: nat

datatype json_text = Malformed | Document document

definition dbVersion :: nat where
  "dbVersion = 1"

definition exportData :: "platform \<Rightarrow> state \<Rightarrow> json_text \<times> state" where
  "exportData pf s =
     (let (tasks, s1) = getTasks pf s no_filters;
          settings = getAllSettings s1;
          analytics = getAnalytics s1 no_analytics_filters;
          (now, s2) = Utils_Date_now s1
      in (Document \<lparr>doc_tasks = Some tasks, doc_settings = Some settings, doc_analytics = analytics,
                     doc_exportDate = Some now, doc_version = dbVersion\<rparr>, s2))"

text \<open>The loop over \<^verbatim>\<open>data.tasks\<close>: the first \<^verbatim>\<open>saveTask\<close> that throws ends it.\<close>

fun import_tasks :: "state \<Rightarrow> task list \<Rightarrow> (error + unit) \<times> state" where
  "import_tasks s [] = (Inr (), s)"
| "import_tasks s (t # ts) =
     (case saveTask s t of
        (Inl e, s1) \<Rightarrow> (Inl e, s1)
      | (Inr saved, s1) \<Rightarrow> import_tasks s1 ts)"

fun import_settings :: "state \<Rightarrow> (string \<times> string) list \<Rightarrow> state" where
  "import_settings s [] = s"
| "import_settings s ((k, v) # rest) = import_settings (snd (setSetting s k v)) rest"

definition importData :: "state \<Rightarrow> json_text \<Rightarrow> (error + bool) \<times> state" where
  "importData s jsonData =
     (case jsonData of
        Malformed \<Rightarrow> (Inl SyntaxError, s)
      | Document data \<Rightarrow>
          (case doc_tasks data of
             None \<Rightarrow> (Inl InvalidFormat, s)
           | Some tasks \<Rightarrow>
               (case import_tasks s tasks of
                  (Inl e, s1) \<Rightarrow> (Inl e, s1)
                | (Inr u, s1) \<Rightarrow>
                    (let s2 = (case doc_settings data of
                                 None \<Rightarrow> s1
                               | Some entries \<Rightarrow> import_settings s1 entries);
                         (ok, s3) = trackEvent s2 ''data_imported''
                                      [(''tasksCount'', JNum (int (length tasks))),
                                       (''importDate'', case doc_exportDate data of
                                                          None \<Rightarrow> JUndefined
                                                        | Some d \<Rightarrow> JDate d)]
                     in (Inr True, s3)))))"

subsection \<open>Storage manager: cleanup\<close>

text \<open>
  \<^verbatim>\<open>cleanupOldData\<close>. The cutoff is what \<^verbatim>\<open>setDate(getDate() - 30)\<close> makes of the
  current instant: thirty calendar days back in local time (thirty times 24 hours only
  when local time has no clock change in between). The function returns \<^verbatim>\<open>true\<close>;
  the number of events is logged.
\<close>

definition cleanupOldData :: "platform \<Rightarrow> state \<Rightarrow> jsval \<times> state" where
  "cleanupOldData pf s =
     (let (now, s1) = Date_now s;
          thirtyDaysAgo = setDate_back pf now 30;
          oldEvents = getAnalytics s1 (no_analytics_filters\<lparr>a_endDate := Some thirtyDaysAgo\<rparr>);
          s2 = foldl (\<lambda>acc ev. deleteFromStore_analytics acc (event_id ev)) s1 oldEvents
      in (JBool True, s2))"

subsection \<open>Storage manager: sync queue\<close>

text \<open>The persisted mirror holds what \<^verbatim>\<open>JSON.stringify\<close> keeps of an item: id and timestamp.\<close>

definition mirror :: "item list \<Rightarrow> (string \<times> int) list" where
  "mirror q = map (\<lambda>it. (item_id it, item_timestamp it)) q"

definition addToSyncQueue :: "state \<Rightarrow> thunk \<Rightarrow> state" where
  "addToSyncQueue s op =
     (let (new_id, s1) = generateId s;
          (ts, s2) = Date_now s1;
          q = syncQueue s2 @ [\<lparr>item_id = new_id, operation = op, item_timestamp = ts\<rparr>]
      in s2\<lparr>syncQueue := q, kv_syncQueue := Some (mirror q)\<rparr>)"



subsection \<open>Sample data and vocabulary of the statements\<close>

definition sample_task :: "string \<Rightarrow> string \<Rightarrow> int option \<Rightarrow> int \<Rightarrow> task" where
  "sample_task i p due created =
     \<lparr>task_id = Some i, title = Some ''Pagar conta'', description = Some [],
      category = Some ''financas'', priority = Some p, status = Some ''pending'',
      dueDate = due, createdAt = Some created, updatedAt = Some created, completedAt = None\<rparr>"

text \<open>
  \<open>advance\<close>: a state after some readings of the clock and of the random source.
  \<open>tracked\<close>: the event that \<^verbatim>\<open>trackEvent\<close> called in state \<open>s\<close> stores.
  \<open>stamped\<close>: the task that \<^verbatim>\<open>saveTask\<close> called in state \<open>s\<close> persists.
\<close>

definition advance :: "state \<Rightarrow> nat \<Rightarrow> nat \<Rightarrow> state" where
  "advance s n m = s\<lparr>ticks := ticks s + n, draws := draws s + m\<rparr>"

definition tracked :: "state \<Rightarrow> string \<Rightarrow> (string \<times> jsval) list \<Rightarrow> event" where
  "tracked s type_tag data =
     \<lparr>event_id = ''id_'' @ rng s (draws s) @ ''_'' @ number_toString (clock s (ticks s)),
      etype = type_tag, edata = data,
      date = clock s (ticks s + 1) + 3600000, timestamp = clock s (ticks s + 2)\<rparr>"

definition stamp_reads :: "task \<Rightarrow> nat" where
  "stamp_reads t = (if nonempty (task_id t) then 0 else 1) + (if createdAt t = None then 1 else 0) + 1"

definition id_draws :: "task \<Rightarrow> nat" where
  "id_draws t = (if nonempty (task_id t) then 0 else 1)"

definition stamped :: "state \<Rightarrow> task \<Rightarrow> task" where
  "stamped s t = sanitize_and_validate (fst (set_defaults s t))"

text \<open>What \<^verbatim>\<open>getFromStore\<close> finds under a key, when that is one record.\<close>

definition persisted_task :: "state \<Rightarrow> string \<Rightarrow> task option" where
  "persisted_task s k = (case getFromStore_tasks s (Some k) of Some (Rec t) \<Rightarrow> Some t | _ \<Rightarrow> None)"

definition recorded_event :: "state \<Rightarrow> string \<Rightarrow> event option" where
  "recorded_event s i = (case getFromStore_analytics s (Some i) of Some (Rec e) \<Rightarrow> Some e | _ \<Rightarrow> None)"

definition sample_event :: "string \<Rightarrow> int \<Rightarrow> event" where
  "sample_event i d = \<lparr>event_id = i, etype = ''task_saved'', edata = [], date = d, timestamp = d - 3600000\<rparr>"



text \<open>
  \<open>saved_form\<close>: a task as \<^verbatim>\<open>saveTask\<close> persists it. \<open>resaved\<close>: such a task after
  one more \<^verbatim>\<open>saveTask\<close> at the instant \<open>u\<close>.
\<close>

definition saved_form :: "task \<Rightarrow> bool" where
  "saved_form t \<longleftrightarrow>
     nonempty (task_id t) \<and> \<not> blank_title t \<and> createdAt t \<noteq> None \<and>
     priority t \<in> Some ` set [''alta'', ''media'', ''baixa''] \<and>
     category t \<in> Some ` set taskCategories \<and>
     status t \<in> Some ` set [''pending'', ''completed'', ''archived'']"

definition resaved :: "task \<Rightarrow> int \<Rightarrow> task" where
  "resaved t u =
     t\<lparr>title := Some (sanitizeHtml (title t)), description := Some (sanitizeHtml (description t)),
       updatedAt := Some u\<rparr>"

text \<open>A stored task whose title, \<^verbatim>\<open>R&D\<close> when typed, was escaped by \<^verbatim>\<open>saveTask\<close>.\<close>

definition escaped_task :: task where
  "escaped_task = (sample_task ''a'' ''alta'' None 1000)\<lparr>title := Some ''R&amp;D''\<rparr>"





section \<open>Theorems\<close>

subsection \<open>Activation\<close>

lemma activate_fold:
  "foldl (\<lambda>acc n. if P n then caches_delete acc n else acc) cs ns =
     filter (\<lambda>e. \<not> (fst e \<in> set ns \<and> P (fst e))) cs"
proof (induction ns arbitrary: cs)
  case Nil
  then show ?case by simp
next
  case (Cons n ns)
  show ?case
  proof (cases "P n")
    case True
    have "filter (\<lambda>e. \<not> (fst e \<in> set ns \<and> P (fst e))) (caches_delete cs n) =
          filter (\<lambda>e. \<not> (fst e \<in> set (n # ns) \<and> P (fst e))) cs"
      unfolding caches_delete_def filter_filter
      by (rule filter_cong) (use True in auto)
    with True Cons.IH [of "caches_delete cs n"] show ?thesis by simp
  next
    case False
    have "filter (\<lambda>e. \<not> (fst e \<in> set ns \<and> P (fst e))) cs =
          filter (\<lambda>e. \<not> (fst e \<in> set (n # ns) \<and> P (fst e))) cs"
      by (rule filter_cong) (use False in auto)
    with False Cons.IH [of cs] show ?thesis by simp
  qed
qed

lemma activate_filter: "activate cs = filter (\<lambda>e. \<not> stale_generation (fst e)) cs"
proof -
  have "activate cs = filter (\<lambda>e. \<not> (fst e \<in> set (caches_keys cs) \<and> stale_generation (fst e))) cs"
    unfolding activate_def by (rule activate_fold)
  also have "\<dots> = filter (\<lambda>e. \<not> stale_generation (fst e)) cs"
    by (rule filter_cong) (auto simp: caches_keys_def)
  finally show ?thesis .
qed

lemma map_of_filter_keep:
  "P k \<Longrightarrow> map_of (filter (\<lambda>e. P (fst e)) xs) k = map_of xs k"
  by (induction xs) auto

text \<open>
  C5. After activation, every generation of the earlier enumeration whose name contains
  \<^verbatim>\<open>list-kamba\<close> and is none of the three current names is gone; every other generation
  of the enumeration (the three current ones, and those outside the namespace) is still
  enumerated and holds the same entries.
\<close>

theorem C5_activate_evicts_stale_generations:
  "\<forall>name \<in> set (caches_keys cs).
     (str_includes name ''list-kamba'' \<and> name \<notin> {STATIC_CACHE, DYNAMIC_CACHE, RUNTIME_CACHE}
        \<longrightarrow> name \<notin> set (caches_keys (activate cs))) \<and>
     (name \<in> {STATIC_CACHE, DYNAMIC_CACHE, RUNTIME_CACHE} \<or> \<not> str_includes name ''list-kamba''
        \<longrightarrow> name \<in> set (caches_keys (activate cs)) \<and> map_of (activate cs) name = map_of cs name)"
proof
  fix name assume in_keys: "name \<in> set (caches_keys cs)"
  have gone: "name \<notin> set (caches_keys (activate cs))" if "stale_generation name"
    using that by (auto simp: activate_filter caches_keys_def)
  have kept: "name \<in> set (caches_keys (activate cs)) \<and> map_of (activate cs) name = map_of cs name"
    if "\<not> stale_generation name"
  proof
    from in_keys that show "name \<in> set (caches_keys (activate cs))"
      by (auto simp: activate_filter caches_keys_def)
    from that show "map_of (activate cs) name = map_of cs name"
      unfolding activate_filter by (rule map_of_filter_keep [where P = "\<lambda>k. \<not> stale_generation k"])
  qed
  show "(str_includes name ''list-kamba'' \<and> name \<notin> {STATIC_CACHE, DYNAMIC_CACHE, RUNTIME_CACHE}
        \<longrightarrow> name \<notin> set (caches_keys (activate cs))) \<and>
     (name \<in> {STATIC_CACHE, DYNAMIC_CACHE, RUNTIME_CACHE} \<or> \<not> str_includes name ''list-kamba''
        \<longrightarrow> name \<in> set (caches_keys (activate cs)) \<and> map_of (activate cs) name = map_of cs name)"
    using gone kept by (auto simp: stale_generation_def)
qed

theorem C5_activate_witness:
  "''list-kamba-v0.9.0-static'' \<in>
     set (caches_keys [(''list-kamba-v0.9.0-static'', []), (STATIC_CACHE, []), (''fonts-v1'', [])]) \<and>
   str_includes ''list-kamba-v0.9.0-static'' ''list-kamba'' \<and>
   ''list-kamba-v0.9.0-static'' \<notin> {STATIC_CACHE, DYNAMIC_CACHE, RUNTIME_CACHE} \<and>
   \<not> str_includes ''fonts-v1'' ''list-kamba'' \<and>
   caches_keys (activate [(''list-kamba-v0.9.0-static'', []), (STATIC_CACHE, []), (''fonts-v1'', [])]) =
     [STATIC_CACHE, ''fonts-v1'']"
  using C5_activate_evicts_stale_generations
    [of "[(''list-kamba-v0.9.0-static'', []), (STATIC_CACHE, []), (''fonts-v1'', [])]"]
  by (simp add: caches_keys_def activate_def caches_delete_def stale_generation_def
      str_includes_def sublist_code STATIC_CACHE_def DYNAMIC_CACHE_def RUNTIME_CACHE_def
      CACHE_NAME_def)

subsection \<open>Stale-while-revalidate\<close>

lemma swr_cached_copy_wins:
  "cache_match (cache_of (caches_open cs RUNTIME_CACHE) RUNTIME_CACHE) (pathname req) = Some c \<Longrightarrow>
   fst (staleWhileRevalidate fetch cs req) = Some c"
  by (simp add: staleWhileRevalidate_def Let_def split: prod.splits)

lemma swr_network_result:
  "cache_match (cache_of (caches_open cs RUNTIME_CACHE) RUNTIME_CACHE) (pathname req) = None \<Longrightarrow>
   fst (staleWhileRevalidate fetch cs req) = fetch req"
  by (simp add: staleWhileRevalidate_def background_fetch_def Let_def split: prod.splits option.splits)

text \<open>
  C3. With no cached copy and a failing fetch, \<^verbatim>\<open>staleWhileRevalidate\<close> settles with
  \<^verbatim>\<open>undefined\<close>: the promise of the background fetch is truthy, so the offline
  fallback, which would have answered with the offline page, is never reached.
\<close>

theorem C3_swr_failed_fetch_yields_undefined:
  "staleWhileRevalidate (\<lambda>r. None) []
      \<lparr>pathname = ''/pages/tasks.html'', mode = ''no-cors'', req_method = ''GET''\<rparr>
     = (None, [(RUNTIME_CACHE, [])]) \<and>
   fst (handleOfflineRequest [(RUNTIME_CACHE, [])]
      \<lparr>pathname = ''/pages/tasks.html'', mode = ''no-cors'', req_method = ''GET''\<rparr>)
     = Some offline_page_response"
  by (simp add: staleWhileRevalidate_def background_fetch_def caches_open_def caches_keys_def
      cache_of_def cache_match_def handleOfflineRequest_def startsWith_def)

subsection \<open>Offline fallback\<close>

lemma offline_api_request:
  "mode req \<noteq> ''navigate'' \<Longrightarrow> startsWith (pathname req) ''/api/'' \<Longrightarrow>
   handleOfflineRequest cs req = (Some offline_api_response, cs) \<and>
   http_status offline_api_response = 503 \<and>
   (\<exists>fields. payload offline_api_response = JsonBody fields \<and> map_of fields ''error'' = Some ''offline'')"
  by (simp add: handleOfflineRequest_def offline_api_response_def)

lemma offline_other_request:
  "mode req \<noteq> ''navigate'' \<Longrightarrow> \<not> startsWith (pathname req) ''/api/'' \<Longrightarrow>
   handleOfflineRequest cs req = (Some offline_page_response, cs) \<and>
   http_status offline_page_response = 200 \<and> payload offline_page_response = OfflinePage"
  by (simp add: handleOfflineRequest_def offline_page_response_def)

lemma offline_navigation_index_only:
  "mode req = ''navigate'' \<Longrightarrow>
   fst (handleOfflineRequest cs req) =
     cache_match (cache_of (caches_open cs STATIC_CACHE) STATIC_CACHE) ''/index.html''"
  by (simp add: handleOfflineRequest_def js_or_def Let_def)

text \<open>
  The static generation is changed only by a successful install, which stores every
  listed file, and by the deletion of the whole generation. So in every storage that the
  worker reaches, the root document is cached only together with the index document, and
  the second operand of \<^verbatim>\<open>cache.match('/index.html') || cache.match('/')\<close>, which is
  never used, is never missed.
\<close>

lemma names_differ: "DYNAMIC_CACHE \<noteq> STATIC_CACHE" "RUNTIME_CACHE \<noteq> STATIC_CACHE"
  by (simp_all add: DYNAMIC_CACHE_def STATIC_CACHE_def RUNTIME_CACHE_def)

lemma static_not_stale: "\<not> stale_generation STATIC_CACHE"
  by (simp add: stale_generation_def)

lemma cache_of_open: "cache_of (caches_open cs n) k = cache_of cs k"
  by (auto simp: cache_of_def caches_open_def map_add_def split: option.splits)

lemma app_shell_open: "app_shell (caches_open cs n) = app_shell cs"
  by (simp add: app_shell_def cache_of_open)

lemma map_of_update_named:
  "map_of (map (\<lambda>e. if fst e = n then (n, f (snd e)) else e) cs) k =
     (if k = n then map_option f (map_of cs n) else map_of cs k)"
  by (induction cs) auto

lemma app_shell_put_other: "n \<noteq> STATIC_CACHE \<Longrightarrow> app_shell (cache_put cs n url r) = app_shell cs"
  unfolding app_shell_def cache_of_def cache_put_def
  using map_of_update_named [of n "\<lambda>c. (url, r) # filter (\<lambda>p. fst p \<noteq> url) c" cs STATIC_CACHE]
  by simp

lemma map_of_delete: "map_of (caches_delete cs n) k = (if k = n then None else map_of cs k)"
  by (induction cs) (auto simp: caches_delete_def)

lemma app_shell_delete: "app_shell (caches_delete cs n) = (if n = STATIC_CACHE then [] else app_shell cs)"
  by (simp add: app_shell_def cache_of_def map_of_delete)

lemma app_shell_activate: "app_shell (activate cs) = app_shell cs"
  unfolding app_shell_def cache_of_def activate_filter
  using map_of_filter_keep [of "\<lambda>k. \<not> stale_generation k" STATIC_CACHE cs] static_not_stale by simp


lemma shell_consistent_kept:
  "shell_consistent cs \<Longrightarrow> app_shell cs' = app_shell cs \<or> app_shell cs' = [] \<Longrightarrow> shell_consistent cs'"
  by (auto simp: shell_consistent_def cache_match_def split: option.splits)

lemma app_shell_offline: "app_shell (snd (handleOfflineRequest cs req)) = app_shell cs"
  by (simp add: handleOfflineRequest_def Let_def app_shell_open)

lemma app_shell_swr: "app_shell (snd (staleWhileRevalidate fetch cs req)) = app_shell cs"
  by (cases "fetch req")
     (simp_all add: staleWhileRevalidate_def background_fetch_def Let_def app_shell_open
        app_shell_put_other names_differ split: prod.splits)

lemma app_shell_cacheFirst: "app_shell (snd (cacheFirst fetch cs req)) = app_shell cs"
  by (simp add: cacheFirst_def app_shell_offline app_shell_open app_shell_put_other names_differ
      split: option.splits)

lemma app_shell_networkFirst: "app_shell (snd (networkFirst fetch cs req)) = app_shell cs"
  by (simp add: networkFirst_def app_shell_offline app_shell_open app_shell_put_other names_differ
      split: option.splits)

lemma app_shell_on_fetch: "app_shell (snd (on_fetch fetch cs req)) = app_shell cs"
  by (simp add: on_fetch_def split_def Let_def app_shell_cacheFirst app_shell_networkFirst app_shell_swr)

lemma app_shell_cacheUrls: "app_shell (cacheUrls fetch cs urls) = app_shell cs"
proof -
  have "app_shell (foldl (\<lambda>acc url. case fetch (url_request url) of
                         None \<Rightarrow> acc
                       | Some r \<Rightarrow> if http_status r = 200 then cache_put acc DYNAMIC_CACHE url r else acc)
          acc urls) = app_shell acc" for acc
    by (induction urls arbitrary: acc)
       (simp_all add: app_shell_put_other names_differ split: option.splits)
  then show ?thesis by (simp add: cacheUrls_def app_shell_open)
qed

lemma app_shell_delete_all:
  "app_shell (foldl caches_delete cs names) = app_shell cs \<or> app_shell (foldl caches_delete cs names) = []"
proof (induction names arbitrary: cs)
  case Nil
  then show ?case by simp
next
  case (Cons n names)
  from Cons.IH [of "caches_delete cs n"] show ?case
    by (auto simp: app_shell_delete split: if_splits)
qed

lemma app_shell_clearCaches:
  "app_shell (clearCaches cs) = app_shell cs \<or> app_shell (clearCaches cs) = []"
  unfolding clearCaches_def by (rule app_shell_delete_all)

lemma map_of_put_entry: "map_of (put_entry c e) k = (if k = fst e then Some (snd e) else map_of c k)"
  by (induction c) (auto simp: put_entry_def)

lemma dom_put_all: "k \<in> fst ` set entries \<Longrightarrow> map_of (foldl put_entry c entries) k \<noteq> None"
  by (induction entries rule: rev_induct) (auto simp: map_of_put_entry)

lemma fetch_all_urls: "fetch_all fetch urls = Some entries \<Longrightarrow> map fst entries = urls"
  by (induction urls arbitrary: entries) (auto split: option.splits if_splits)

lemma map_of_opened: "map_of (caches_open cs n) n \<noteq> None"
  by (auto simp: caches_open_def caches_keys_def map_of_eq_None_iff)

lemma install_failed: "\<not> fst (install fetch cs) \<Longrightarrow> app_shell (snd (install fetch cs)) = app_shell cs"
  by (auto simp: install_def Let_def app_shell_open split: option.splits)

lemma install_done:
  assumes "fst (install fetch cs)" and "url \<in> set STATIC_FILES"
  shows "cache_match (app_shell (snd (install fetch cs))) url \<noteq> None"
proof -
  from assms(1) obtain entries where e: "fetch_all fetch STATIC_FILES = Some entries"
    by (auto simp: install_def Let_def split: option.splits)
  obtain c where c: "map_of (caches_open cs STATIC_CACHE) STATIC_CACHE = Some c"
    using map_of_opened [of cs STATIC_CACHE] by auto
  have "app_shell (snd (install fetch cs)) = foldl put_entry c entries"
    using map_of_update_named [of STATIC_CACHE "\<lambda>c. foldl put_entry c entries"
                                 "caches_open cs STATIC_CACHE" STATIC_CACHE]
    by (simp add: install_def Let_def e app_shell_def cache_of_def c)
  moreover have "url \<in> fst ` set entries"
    using fetch_all_urls [OF e] assms(2) by (metis set_map)
  ultimately show ?thesis by (simp add: cache_match_def dom_put_all)
qed

lemma index_listed: "''/index.html'' \<in> set STATIC_FILES"
  by (simp add: STATIC_FILES_def)

lemma shell_consistent_step: "shell_consistent cs \<Longrightarrow> shell_consistent (sw_step cs ev)"
proof (cases ev)
  case (Install fetch)
  assume inv: "shell_consistent cs"
  show ?thesis
  proof (cases "fst (install fetch cs)")
    case True
    from install_done [OF True index_listed] show ?thesis
      by (auto simp: Install shell_consistent_def)
  next
    case False
    from install_failed [OF False] inv show ?thesis
      by (simp add: Install shell_consistent_kept)
  qed
next
  case Activate
  assume "shell_consistent cs"
  then show ?thesis by (simp add: Activate shell_consistent_kept app_shell_activate)
next
  case (Fetch fetch req)
  assume "shell_consistent cs"
  then show ?thesis by (simp add: Fetch shell_consistent_kept app_shell_on_fetch)
next
  case (CacheUrls fetch urls)
  assume "shell_consistent cs"
  then show ?thesis by (simp add: CacheUrls shell_consistent_kept app_shell_cacheUrls)
next
  case ClearCache
  assume "shell_consistent cs"
  then show ?thesis using app_shell_clearCaches [of cs] by (simp add: ClearCache shell_consistent_kept)
qed

lemma shell_consistent_run: "shell_consistent cs \<Longrightarrow> shell_consistent (sw_run cs evs)"
  unfolding sw_run_def by (induction evs arbitrary: cs) (simp_all add: shell_consistent_step)

lemma shell_consistent_initial: "STATIC_CACHE \<notin> set (caches_keys cs) \<Longrightarrow> shell_consistent cs"
  by (simp add: shell_consistent_def app_shell_def cache_of_def cache_match_def caches_keys_def
      map_of_eq_None_iff [THEN iffD2])

text \<open>
  C4. In every cache storage that the worker reaches from one in which its static
  generation does not exist yet, \<^verbatim>\<open>handleOfflineRequest\<close> answers a navigation with
  the cached app shell: the index document when it is cached, else the root document
  when that is cached. A request that is no navigation and whose path starts with
  \<^verbatim>\<open>/api/\<close> gets the JSON body with \<^verbatim>\<open>error: "offline"\<close> and status 503; every
  other request gets the offline page with status 200.
\<close>

theorem C4_offline_fallback:
  "STATIC_CACHE \<notin> set (caches_keys cs0) \<longrightarrow>
     (mode req = ''navigate'' \<longrightarrow>
        fst (handleOfflineRequest (sw_run cs0 evs) req) =
          (case cache_match (app_shell (sw_run cs0 evs)) ''/index.html'' of
             Some r \<Rightarrow> Some r
           | None \<Rightarrow> cache_match (app_shell (sw_run cs0 evs)) ''/'')) \<and>
     (mode req \<noteq> ''navigate'' \<and> startsWith (pathname req) ''/api/'' \<longrightarrow>
        fst (handleOfflineRequest (sw_run cs0 evs) req) = Some offline_api_response \<and>
        http_status offline_api_response = 503 \<and>
        (\<exists>fields. payload offline_api_response = JsonBody fields \<and>
                  map_of fields ''error'' = Some ''offline'')) \<and>
     (mode req \<noteq> ''navigate'' \<and> \<not> startsWith (pathname req) ''/api/'' \<longrightarrow>
        fst (handleOfflineRequest (sw_run cs0 evs) req) = Some offline_page_response \<and>
        http_status offline_page_response = 200 \<and> payload offline_page_response = OfflinePage)"
proof (intro impI conjI)
  assume init: "STATIC_CACHE \<notin> set (caches_keys cs0)" and nav: "mode req = ''navigate''"
  have inv: "shell_consistent (sw_run cs0 evs)"
    using init by (intro shell_consistent_run shell_consistent_initial)
  have "fst (handleOfflineRequest (sw_run cs0 evs) req) =
          cache_match (app_shell (sw_run cs0 evs)) ''/index.html''"
    using offline_navigation_index_only [OF nav, of "sw_run cs0 evs"]
    by (simp add: app_shell_def cache_of_open)
  with inv show "fst (handleOfflineRequest (sw_run cs0 evs) req) =
          (case cache_match (app_shell (sw_run cs0 evs)) ''/index.html'' of
             Some r \<Rightarrow> Some r
           | None \<Rightarrow> cache_match (app_shell (sw_run cs0 evs)) ''/'')"
    by (simp add: shell_consistent_def split: option.splits)
next
  assume "mode req \<noteq> ''navigate'' \<and> startsWith (pathname req) ''/api/''"
  then have a: "mode req \<noteq> ''navigate''" "startsWith (pathname req) ''/api/''" by simp_all
  from offline_api_request [OF a, of "sw_run cs0 evs"]
  show "fst (handleOfflineRequest (sw_run cs0 evs) req) = Some offline_api_response"
    and "http_status offline_api_response = 503"
    and "\<exists>fields. payload offline_api_response = JsonBody fields \<and>
                  map_of fields ''error'' = Some ''offline''"
    by simp_all
next
  assume "mode req \<noteq> ''navigate'' \<and> \<not> startsWith (pathname req) ''/api/''"
  then have a: "mode req \<noteq> ''navigate''" "\<not> startsWith (pathname req) ''/api/''" by simp_all
  from offline_other_request [OF a, of "sw_run cs0 evs"]
  show "fst (handleOfflineRequest (sw_run cs0 evs) req) = Some offline_page_response"
    and "http_status offline_page_response = 200"
    and "payload offline_page_response = OfflinePage"
    by simp_all
qed

lemma installed_index:
  "cache_match (app_shell (sw_run [] [Install (\<lambda>q. Some shell_response)])) ''/index.html'' = Some shell_response"
  by (simp add: sw_run_def install_def caches_open_def caches_keys_def STATIC_FILES_def response_ok_def
      shell_response_def put_entry_def app_shell_def cache_of_def cache_match_def Let_def)

theorem C4_offline_fallback_witness:
  "STATIC_CACHE \<notin> set (caches_keys []) \<and>
   fst (handleOfflineRequest (sw_run [] [Install (\<lambda>q. Some shell_response)])
          \<lparr>pathname = ''/pages/tasks.html'', mode = ''navigate'', req_method = ''GET''\<rparr>)
     = Some shell_response \<and>
   startsWith ''/api/tasks'' ''/api/'' \<and>
   fst (handleOfflineRequest (sw_run [] [Install (\<lambda>q. Some shell_response)])
          \<lparr>pathname = ''/api/tasks'', mode = ''cors'', req_method = ''GET''\<rparr>)
     = Some offline_api_response \<and>
   \<not> startsWith ''/images/logo.png'' ''/api/'' \<and>
   fst (handleOfflineRequest (sw_run [] [Install (\<lambda>q. Some shell_response)])
          \<lparr>pathname = ''/images/logo.png'', mode = ''no-cors'', req_method = ''GET''\<rparr>)
     = Some offline_page_response"
  using C4_offline_fallback
          [of "[]" "\<lparr>pathname = ''/pages/tasks.html'', mode = ''navigate'', req_method = ''GET''\<rparr>"
              "[Install (\<lambda>q. Some shell_response)]"]
        C4_offline_fallback
          [of "[]" "\<lparr>pathname = ''/api/tasks'', mode = ''cors'', req_method = ''GET''\<rparr>"
              "[Install (\<lambda>q. Some shell_response)]"]
        C4_offline_fallback
          [of "[]" "\<lparr>pathname = ''/images/logo.png'', mode = ''no-cors'', req_method = ''GET''\<rparr>"
              "[Install (\<lambda>q. Some shell_response)]"]
  by (simp add: installed_index caches_keys_def startsWith_def)

subsection \<open>Sorting of tasks\<close>

lemma mset_sort_insert: "mset (sort_insert cmp x ys) = add_mset x (mset ys)"
  by (induction ys) auto

lemma mset_foldl_insert: "mset (foldl (\<lambda>acc x. sort_insert cmp x acc) acc xs) = mset acc + mset xs"
  by (induction xs arbitrary: acc) (auto simp: mset_sort_insert)

lemma mset_array_sort: "mset (array_sort cmp xs) = mset xs"
  by (simp add: array_sort_def mset_foldl_insert)

lemma set_sort_insert: "set (sort_insert cmp x ys) = insert x (set ys)"
  by (induction ys) auto

lemma sorted_wrt_sort_insert:
  assumes "sorted_wrt L ys"
    and "\<And>y. y \<in> set ys \<Longrightarrow> precedes cmp x y \<Longrightarrow> L x y"
    and "\<And>y. y \<in> set ys \<Longrightarrow> \<not> precedes cmp x y \<Longrightarrow> L y x"
    and "\<And>a b. a \<in> set ys \<Longrightarrow> b \<in> set ys \<Longrightarrow> L x a \<Longrightarrow> L a b \<Longrightarrow> L x b"
  shows "sorted_wrt L (sort_insert cmp x ys)"
  using assms
proof (induction ys)
  case Nil
  then show ?case by simp
next
  case (Cons y ys)
  show ?case
  proof (cases "precedes cmp x y")
    case True
    have xy: "L x y" using Cons.prems(2) True by simp
    have "L x z" if "z \<in> set ys" for z
      using Cons.prems(4) [of y z] that xy Cons.prems(1) by auto
    with True xy Cons.prems(1) show ?thesis by auto
  next
    case False
    have yx: "L y x" using Cons.prems(3) False by simp
    have "sorted_wrt L (sort_insert cmp x ys)"
      using Cons.prems by (intro Cons.IH) auto
    with False yx Cons.prems(1) show ?thesis by (auto simp: set_sort_insert)
  qed
qed

lemma sorted_wrt_array_sort:
  assumes "\<And>x y. x \<in> set xs \<Longrightarrow> y \<in> set xs \<Longrightarrow> precedes cmp x y \<Longrightarrow> L x y"
    and "\<And>x y. x \<in> set xs \<Longrightarrow> y \<in> set xs \<Longrightarrow> \<not> precedes cmp x y \<Longrightarrow> L y x"
    and "\<And>x a b. x \<in> set xs \<Longrightarrow> a \<in> set xs \<Longrightarrow> b \<in> set xs \<Longrightarrow> L x a \<Longrightarrow> L a b \<Longrightarrow> L x b"
  shows "sorted_wrt L (array_sort cmp xs)"
proof -
  have "sorted_wrt L acc \<Longrightarrow> set acc \<union> set ys \<subseteq> set xs \<Longrightarrow>
        sorted_wrt L (foldl (\<lambda>acc x. sort_insert cmp x acc) acc ys)" for acc ys
  proof (induction ys arbitrary: acc)
    case Nil
    then show ?case by simp
  next
    case (Cons y ys)
    have sub: "set acc \<subseteq> set xs" "y \<in> set xs" using Cons.prems(2) by auto
    have "sorted_wrt L (sort_insert cmp y acc)"
    proof (rule sorted_wrt_sort_insert)
      show "sorted_wrt L acc" by (rule Cons.prems(1))
      show "L y z" if "z \<in> set acc" "precedes cmp y z" for z
        using assms(1) [of y z] that sub by blast
      show "L z y" if "z \<in> set acc" "\<not> precedes cmp y z" for z
        using assms(2) [of y z] that sub by blast
      show "L y b" if "a \<in> set acc" "b \<in> set acc" "L y a" "L a b" for a b
        using assms(3) [of y a b] that sub by blast
    qed
    moreover have "set (sort_insert cmp y acc) \<union> set ys \<subseteq> set xs"
      using Cons.prems by (auto simp: set_sort_insert)
    ultimately show ?case using Cons.IH by simp
  qed
  from this [of "[]" xs] show ?thesis by (simp add: array_sort_def)
qed

lemma successively_sort_insert:
  assumes "successively (\<lambda>a b. \<not> precedes cmp b a) ys"
    and "\<And>y. precedes cmp x y \<Longrightarrow> \<not> precedes cmp y x"
  shows "successively (\<lambda>a b. \<not> precedes cmp b a) (sort_insert cmp x ys)"
  using assms(1)
proof (induction ys)
  case Nil
  then show ?case by simp
next
  case (Cons y ys)
  note oprems = Cons.prems and oIH = Cons.IH
  show ?case
  proof (cases "precedes cmp x y")
    case True
    with oprems assms(2) show ?thesis by simp
  next
    case False
    have tl: "successively (\<lambda>a b. \<not> precedes cmp b a) ys"
      using oprems by (cases ys) simp_all
    have ih: "successively (\<lambda>a b. \<not> precedes cmp b a) (sort_insert cmp x ys)"
      by (rule oIH [OF tl])
    show ?thesis
    proof (cases ys)
      case Nil
      with False show ?thesis by simp
    next
      case (Cons z zs)
      with False ih oprems show ?thesis by (simp split: if_splits)
    qed
  qed
qed


lemma successively_array_sort:
  assumes "\<And>x y. precedes cmp x y \<Longrightarrow> \<not> precedes cmp y x"
  shows "successively (\<lambda>a b. \<not> precedes cmp b a) (array_sort cmp xs)"
proof -
  have "successively (\<lambda>a b. \<not> precedes cmp b a) acc \<Longrightarrow>
        successively (\<lambda>a b. \<not> precedes cmp b a) (foldl (\<lambda>acc x. sort_insert cmp x acc) acc ys)" for acc ys
  proof (induction ys arbitrary: acc)
    case Nil
    then show ?case by simp
  next
    case (Cons y ys)
    have "successively (\<lambda>a b. \<not> precedes cmp b a) (sort_insert cmp y acc)"
      using Cons.prems assms by (rule successively_sort_insert)
    then show ?case using Cons.IH by simp
  qed
  from this [of "[]" xs] show ?thesis by (simp add: array_sort_def)
qed

lemma precedes_compareTasks_antisym:
  "precedes compareTasks x y \<Longrightarrow> \<not> precedes compareTasks y x"
  by (auto simp: precedes_def compareTasks_def date_minus_def Let_def split: option.splits if_splits)

lemma precedes_rank: "precedes compareTasks x y \<Longrightarrow> priorityOrder (priority y) \<le> priorityOrder (priority x)"
  by (auto simp: precedes_def compareTasks_def Let_def split: option.splits if_splits)

lemma not_precedes_rank: "\<not> precedes compareTasks x y \<Longrightarrow> priorityOrder (priority x) \<le> priorityOrder (priority y)"
  by (auto simp: precedes_def compareTasks_def Let_def split: option.splits if_splits)

lemma set_array_sort: "set (array_sort cmp xs) = set xs"
  by (metis mset_array_sort set_mset_mset)

lemma getTasks_sorted: "fst (getTasks pf s fs) = array_sort compareTasks (fst (filtered_tasks pf s fs))"
  by (simp add: getTasks_def split: prod.splits)

text \<open>
  C2 (amended). \<^verbatim>\<open>getTasks\<close> returns the filtered tasks, each as often as it was
  selected, with priority as primary key: a task never comes after one of lower priority
  (high, then medium, then low or unknown). Two neighbours of equal priority that both
  have a due date are in ascending due-date order; a neighbouring pair of equal priority
  in which a due date is missing is ordered most recently created first, whichever of
  the two has the due date. When every selected task has a due date, all tasks of equal
  priority are in ascending due-date order.
\<close>

theorem C2_getTasks_order:
  "mset (fst (getTasks pf s fs)) = mset (fst (filtered_tasks pf s fs)) \<and>
   sorted_wrt (\<lambda>a b. priorityOrder (priority b) \<le> priorityOrder (priority a)) (fst (getTasks pf s fs)) \<and>
   successively (\<lambda>a b. priorityOrder (priority a) = priorityOrder (priority b) \<longrightarrow>
       (case (dueDate a, dueDate b) of
          (Some due_a, Some due_b) \<Rightarrow> due_a \<le> due_b
        | _ \<Rightarrow> (case (createdAt a, createdAt b) of (Some made_a, Some made_b) \<Rightarrow> made_b \<le> made_a | _ \<Rightarrow> True)))
     (fst (getTasks pf s fs)) \<and>
   ((\<forall>t \<in> set (fst (filtered_tasks pf s fs)). dueDate t \<noteq> None) \<longrightarrow>
      sorted_wrt (\<lambda>a b. priorityOrder (priority a) = priorityOrder (priority b) \<longrightarrow>
                    (\<exists>due_a due_b. dueDate a = Some due_a \<and> dueDate b = Some due_b \<and> due_a \<le> due_b))
        (fst (getTasks pf s fs)))"
proof (intro conjI impI)
  show "mset (fst (getTasks pf s fs)) = mset (fst (filtered_tasks pf s fs))"
    by (simp add: getTasks_sorted mset_array_sort)
next
  show "sorted_wrt (\<lambda>a b. priorityOrder (priority b) \<le> priorityOrder (priority a)) (fst (getTasks pf s fs))"
    unfolding getTasks_sorted
  proof (rule sorted_wrt_array_sort)
    fix x y :: task
    show "precedes compareTasks x y \<Longrightarrow> priorityOrder (priority y) \<le> priorityOrder (priority x)"
      by (rule precedes_rank)
    show "\<not> precedes compareTasks x y \<Longrightarrow> priorityOrder (priority x) \<le> priorityOrder (priority y)"
      by (rule not_precedes_rank)
  next
    fix x a b :: task
    show "priorityOrder (priority a) \<le> priorityOrder (priority x) \<Longrightarrow>
          priorityOrder (priority b) \<le> priorityOrder (priority a) \<Longrightarrow>
          priorityOrder (priority b) \<le> priorityOrder (priority x)"
      by simp
  qed
next
  have "successively (\<lambda>a b. \<not> precedes compareTasks b a) (fst (getTasks pf s fs))"
    unfolding getTasks_sorted by (rule successively_array_sort) (rule precedes_compareTasks_antisym)
  then show "successively (\<lambda>a b. priorityOrder (priority a) = priorityOrder (priority b) \<longrightarrow>
       (case (dueDate a, dueDate b) of
          (Some due_a, Some due_b) \<Rightarrow> due_a \<le> due_b
        | _ \<Rightarrow> (case (createdAt a, createdAt b) of (Some made_a, Some made_b) \<Rightarrow> made_b \<le> made_a | _ \<Rightarrow> True)))
     (fst (getTasks pf s fs))"
  proof (rule successively_mono [rotated 2])
    fix a b :: task
    assume "\<not> precedes compareTasks b a"
    then show "priorityOrder (priority a) = priorityOrder (priority b) \<longrightarrow>
       (case (dueDate a, dueDate b) of
          (Some due_a, Some due_b) \<Rightarrow> due_a \<le> due_b
        | _ \<Rightarrow> (case (createdAt a, createdAt b) of (Some made_a, Some made_b) \<Rightarrow> made_b \<le> made_a | _ \<Rightarrow> True))"
      by (auto simp: precedes_def compareTasks_def date_minus_def Let_def split: option.splits if_splits)
  qed
next
  assume due: "\<forall>t \<in> set (fst (filtered_tasks pf s fs)). dueDate t \<noteq> None"
  let ?L = "\<lambda>a b. priorityOrder (priority b) < priorityOrder (priority a) \<or>
              priorityOrder (priority a) = priorityOrder (priority b) \<and>
              (\<exists>due_a due_b. dueDate a = Some due_a \<and> dueDate b = Some due_b \<and> due_a \<le> due_b)"
  have "sorted_wrt ?L (fst (getTasks pf s fs))"
    unfolding getTasks_sorted
  proof (rule sorted_wrt_array_sort)
    fix x y assume "x \<in> set (fst (filtered_tasks pf s fs))" "y \<in> set (fst (filtered_tasks pf s fs))"
    with due obtain dx dy where d: "dueDate x = Some dx" "dueDate y = Some dy" by blast
    show "precedes compareTasks x y \<Longrightarrow> ?L x y"
      using d by (auto simp: precedes_def compareTasks_def date_minus_def Let_def split: if_splits)
    show "\<not> precedes compareTasks x y \<Longrightarrow> ?L y x"
      using d by (auto simp: precedes_def compareTasks_def date_minus_def Let_def split: if_splits)
  next
    fix x a b :: task
    show "?L x a \<Longrightarrow> ?L a b \<Longrightarrow> ?L x b" by auto
  qed
  then show "sorted_wrt (\<lambda>a b. priorityOrder (priority a) = priorityOrder (priority b) \<longrightarrow>
                    (\<exists>due_a due_b. dueDate a = Some due_a \<and> dueDate b = Some due_b \<and> due_a \<le> due_b))
        (fst (getTasks pf s fs))"
    by (rule sorted_wrt_mono_rel [rotated]) auto
qed

theorem C2_getTasks_order_witness:
  "map dueDate (fst (filtered_tasks ascii_platform
        ((fresh (\<lambda>n. 0) (\<lambda>n. ''x''))
           \<lparr>idb_tasks := [sample_task ''a'' ''baixa'' (Some 5000) 1000,
                          sample_task ''b'' ''alta'' (Some 9000) 2000,
                          sample_task ''c'' ''media'' (Some 7000) 3000,
                          sample_task ''d'' ''alta'' (Some 8000) 4000]\<rparr>) no_filters))
     = [Some 5000, Some 9000, Some 7000, Some 8000] \<and>
   map task_id (fst (getTasks ascii_platform
        ((fresh (\<lambda>n. 0) (\<lambda>n. ''x''))
           \<lparr>idb_tasks := [sample_task ''a'' ''baixa'' (Some 5000) 1000,
                          sample_task ''b'' ''alta'' (Some 9000) 2000,
                          sample_task ''c'' ''media'' (Some 7000) 3000,
                          sample_task ''d'' ''alta'' (Some 8000) 4000]\<rparr>) no_filters))
     = [Some ''d'', Some ''b'', Some ''c'', Some ''a''] \<and>
   sorted_wrt (\<lambda>a b. priorityOrder (priority a) = priorityOrder (priority b) \<longrightarrow>
                    (\<exists>due_a due_b. dueDate a = Some due_a \<and> dueDate b = Some due_b \<and> due_a \<le> due_b))
     (fst (getTasks ascii_platform
        ((fresh (\<lambda>n. 0) (\<lambda>n. ''x''))
           \<lparr>idb_tasks := [sample_task ''a'' ''baixa'' (Some 5000) 1000,
                          sample_task ''b'' ''alta'' (Some 9000) 2000,
                          sample_task ''c'' ''media'' (Some 7000) 3000,
                          sample_task ''d'' ''alta'' (Some 8000) 4000]\<rparr>) no_filters))"
  using C2_getTasks_order [of ascii_platform
        "(fresh (\<lambda>n. 0) (\<lambda>n. ''x''))
           \<lparr>idb_tasks := [sample_task ''a'' ''baixa'' (Some 5000) 1000,
                          sample_task ''b'' ''alta'' (Some 9000) 2000,
                          sample_task ''c'' ''media'' (Some 7000) 3000,
                          sample_task ''d'' ''alta'' (Some 8000) 4000]\<rparr>" no_filters]
  by (simp add: getTasks_def filtered_tasks_def no_filters_def fresh_def getFromStore_tasks_def
      as_array_def nonempty_def array_sort_def precedes_def compareTasks_def date_minus_def
      priorityOrder_def sample_task_def Let_def)

text \<open>
  C2 as stated fails: of two tasks of equal priority, the one without a due date, created
  later, is returned before the one with a due date.
\<close>

theorem C2_no_due_date_first_counterexample:
  "fst (getTasks ascii_platform
          ((fresh (\<lambda>n. 0) (\<lambda>n. ''x''))
             \<lparr>idb_tasks := [sample_task ''a'' ''media'' (Some 5000) 1000,
                            sample_task ''b'' ''media'' None 2000]\<rparr>) no_filters)
     = [sample_task ''b'' ''media'' None 2000, sample_task ''a'' ''media'' (Some 5000) 1000]"
  by (simp add: getTasks_def filtered_tasks_def no_filters_def fresh_def getFromStore_tasks_def
      as_array_def nonempty_def array_sort_def precedes_def compareTasks_def date_minus_def
      priorityOrder_def sample_task_def Let_def)

subsection \<open>Sync queue\<close>






subsection \<open>Saving a task\<close>

lemma sanitize_empty: "sanitizeHtml (Some []) = sanitizeHtml None"
  by (simp add: sanitizeHtml_def)

lemma sanitize_description:
  "sanitizeHtml (if nonempty d then d else Some []) = sanitizeHtml d"
  by (cases d) (auto simp: nonempty_def sanitizeHtml_def)

lemma saveTask_blank: "blank_title t \<Longrightarrow> saveTask s t = (Inl TitleRequired, s)"
  by (simp add: saveTask_def)

lemma trackEvent_closed:
  "trackEvent s ty d = (True, saveToStore_analytics (advance s 3 1) (tracked s ty d))"
  by (simp add: trackEvent_def tracked_def advance_def generateId_def Utils_Date_now_def Date_now_def
      Math_random_def split_def Let_def saveToStore_analytics_def)

lemma set_defaults_state: "snd (set_defaults s t) = advance s (stamp_reads t) (id_draws t)"
  by (cases "nonempty (task_id t)"; cases "createdAt t")
     (simp_all add: set_defaults_def split_def Let_def generateId_def Utils_Date_now_def Date_now_def
        Math_random_def advance_def stamp_reads_def id_draws_def)

lemma set_defaults_task:
  "fst (set_defaults s t) =
     (let t1 = (if nonempty (task_id t) then t
                else t\<lparr>task_id := Some (''id_'' @ rng s (draws s) @ ''_'' @ number_toString (clock s (ticks s)))\<rparr>);
          t2 = (case createdAt t of
                  Some c \<Rightarrow> t1
                | None \<Rightarrow> t1\<lparr>createdAt := Some (clock s (ticks s + id_draws t) + 3600000)\<rparr>)
      in t2\<lparr>updatedAt := Some (clock s (ticks s + stamp_reads t - 1) + 3600000)\<rparr>)"
  by (cases "nonempty (task_id t)"; cases "createdAt t")
     (simp_all add: set_defaults_def split_def Let_def generateId_def Utils_Date_now_def Date_now_def
        Math_random_def stamp_reads_def id_draws_def)

lemma saveTask_result: "\<not> blank_title t \<Longrightarrow> fst (saveTask s t) = Inr (stamped s t)"
  by (simp add: saveTask_def stamped_def split_def Let_def)

lemma saveTask_state:
  "\<not> blank_title t \<Longrightarrow>
   snd (saveTask s t) =
     snd (trackEvent (saveToStore_tasks (advance s (stamp_reads t) (id_draws t)) (stamped s t))
            ''task_saved'' (task_saved_data (stamped s t)))"
  by (simp add: saveTask_def stamped_def split_def Let_def set_defaults_state)

lemma stamped_fields:
  "task_id (stamped s t) =
     (if nonempty (task_id t) then task_id t
      else Some (''id_'' @ rng s (draws s) @ ''_'' @ number_toString (clock s (ticks s))))"
  "createdAt (stamped s t) =
     (case createdAt t of Some c \<Rightarrow> Some c
      | None \<Rightarrow> Some (clock s (ticks s + id_draws t) + 3600000))"
  "updatedAt (stamped s t) = Some (clock s (ticks s + stamp_reads t - 1) + 3600000)"
  "title (stamped s t) = Some (sanitizeHtml (title t))"
  "description (stamped s t) = Some (sanitizeHtml (description t))"
  "priority (stamped s t) = coerce [''alta'', ''media'', ''baixa''] ''media'' (priority t)"
  "category (stamped s t) = coerce taskCategories ''outros'' (category t)"
  "status (stamped s t) = coerce [''pending'', ''completed'', ''archived''] ''pending'' (status t)"
  "dueDate (stamped s t) = dueDate t"
  "completedAt (stamped s t) = completedAt t"
  by (simp_all add: stamped_def sanitize_and_validate_def set_defaults_task Let_def sanitize_description
      split: option.splits)

lemma get_by_put_by: "get_by key k (put_by key r xs) = (if k = key r then Some r else get_by key k xs)"
  by (induction xs) (auto simp: get_by_def)

lemma escape_char_nonempty: "escape_char c \<noteq> []"
  by (simp add: escape_char_def)

lemma sanitize_nonempty: "s \<noteq> [] \<Longrightarrow> sanitizeHtml (Some s) \<noteq> []"
  by (cases s) (simp_all add: sanitizeHtml_def escape_char_nonempty)

lemma sanitize_title_nonempty: "\<not> blank_title t \<Longrightarrow> sanitizeHtml (title t) \<noteq> []"
  by (cases "title t") (auto simp: blank_title_def sanitize_nonempty)

lemma nonempty_stamped_id: "nonempty (task_id (stamped s t))"
  by (simp add: stamped_fields nonempty_def)

lemma trackEvent_tasks:
  "getFromStore_tasks (snd (trackEvent s ty d)) k = getFromStore_tasks s k"
  by (simp add: trackEvent_closed saveToStore_analytics_def advance_def getFromStore_tasks_def)

lemma persisted_after_put:
  "task_id r = Some k \<Longrightarrow> k \<noteq> [] \<Longrightarrow> persisted_task (saveToStore_tasks s r) k = Some r"
  by (simp add: persisted_task_def getFromStore_tasks_def saveToStore_tasks_def get_by_put_by nonempty_def)

lemma saveTask_persisted:
  assumes "\<not> blank_title t" and "task_id (stamped s t) = Some k"
  shows "persisted_task (snd (saveTask s t)) k = Some (stamped s t)"
proof -
  have "k \<noteq> []" using nonempty_stamped_id [of s t] assms(2) by (simp add: nonempty_def)
  then have "persisted_task (saveToStore_tasks (advance s (stamp_reads t) (id_draws t)) (stamped s t)) k
             = Some (stamped s t)"
    using assms(2) by (rule persisted_after_put [rotated])
  then show ?thesis
    by (simp add: saveTask_state [OF assms(1)] persisted_task_def trackEvent_tasks)
qed

lemma coerce_cases:
  "coerce valid dflt v = (if v \<in> Some ` set valid then v else Some dflt)"
  by (cases v) (auto simp: coerce_def)

text \<open>
  C1 (amended). \<^verbatim>\<open>saveTask\<close> fails, with the error that the title is required,
  exactly when the title is missing or empty after trimming. For every other task, the
  task it returns is the one persisted under its id; its priority, status and category
  are the given ones when valid and else \<^verbatim>\<open>media\<close>, \<^verbatim>\<open>pending\<close> and \<^verbatim>\<open>outros\<close>;
  its title is the HTML-escaped given title, which is not empty; its \<^verbatim>\<open>updatedAt\<close> is
  the clock reading of this call; a truthy id is kept, a missing one generated; a present
  \<^verbatim>\<open>createdAt\<close> is kept, a missing one set from the clock. No bound on the length of
  the title is checked.
\<close>

theorem C1_saveTask_persists_valid_task:
  "(fst (saveTask s t) = Inl TitleRequired \<longleftrightarrow> blank_title t) \<and>
   (\<not> blank_title t \<longrightarrow>
      (\<exists>saved k. fst (saveTask s t) = Inr saved \<and> task_id saved = Some k \<and> k \<noteq> [] \<and>
         persisted_task (snd (saveTask s t)) k = Some saved \<and>
         priority saved = (if priority t \<in> {Some ''alta'', Some ''media'', Some ''baixa''}
                           then priority t else Some ''media'') \<and>
         status saved = (if status t \<in> {Some ''pending'', Some ''completed'', Some ''archived''}
                         then status t else Some ''pending'') \<and>
         category saved = (if category t \<in> Some ` set taskCategories then category t
                           else Some ''outros'') \<and>
         title saved = Some (sanitizeHtml (title t)) \<and> sanitizeHtml (title t) \<noteq> [] \<and>
         updatedAt saved =
           Some (clock s (ticks s + (if nonempty (task_id t) then 0 else 1)
                                  + (if createdAt t = None then 1 else 0)) + 3600000) \<and>
         (if nonempty (task_id t) then task_id saved = task_id t
          else k = ''id_'' @ rng s (draws s) @ ''_'' @ number_toString (clock s (ticks s))) \<and>
         (case createdAt t of
            Some c \<Rightarrow> createdAt saved = Some c
          | None \<Rightarrow> createdAt saved =
                      Some (clock s (ticks s + (if nonempty (task_id t) then 0 else 1)) + 3600000))))"
proof (intro conjI impI)
  show "fst (saveTask s t) = Inl TitleRequired \<longleftrightarrow> blank_title t"
    by (cases "blank_title t") (simp_all add: saveTask_blank saveTask_result)
next
  assume ok: "\<not> blank_title t"
  obtain k where k: "task_id (stamped s t) = Some k" "k \<noteq> []"
    using nonempty_stamped_id [of s t] by (auto simp: nonempty_def split: option.splits)
  show "\<exists>saved k. fst (saveTask s t) = Inr saved \<and> task_id saved = Some k \<and> k \<noteq> [] \<and>
         persisted_task (snd (saveTask s t)) k = Some saved \<and>
         priority saved = (if priority t \<in> {Some ''alta'', Some ''media'', Some ''baixa''}
                           then priority t else Some ''media'') \<and>
         status saved = (if status t \<in> {Some ''pending'', Some ''completed'', Some ''archived''}
                         then status t else Some ''pending'') \<and>
         category saved = (if category t \<in> Some ` set taskCategories then category t
                           else Some ''outros'') \<and>
         title saved = Some (sanitizeHtml (title t)) \<and> sanitizeHtml (title t) \<noteq> [] \<and>
         updatedAt saved =
           Some (clock s (ticks s + (if nonempty (task_id t) then 0 else 1)
                                  + (if createdAt t = None then 1 else 0)) + 3600000) \<and>
         (if nonempty (task_id t) then task_id saved = task_id t
          else k = ''id_'' @ rng s (draws s) @ ''_'' @ number_toString (clock s (ticks s))) \<and>
         (case createdAt t of
            Some c \<Rightarrow> createdAt saved = Some c
          | None \<Rightarrow> createdAt saved =
                      Some (clock s (ticks s + (if nonempty (task_id t) then 0 else 1)) + 3600000))"
  proof (intro exI [of _ "stamped s t"] exI [of _ k] conjI)
    show "fst (saveTask s t) = Inr (stamped s t)" by (rule saveTask_result [OF ok])
    show "task_id (stamped s t) = Some k" by (rule k(1))
    show "k \<noteq> []" by (rule k(2))
    show "persisted_task (snd (saveTask s t)) k = Some (stamped s t)"
      by (rule saveTask_persisted [OF ok k(1)])
    show "priority (stamped s t) = (if priority t \<in> {Some ''alta'', Some ''media'', Some ''baixa''}
                           then priority t else Some ''media'')"
      by (simp add: stamped_fields coerce_cases)
    show "status (stamped s t) = (if status t \<in> {Some ''pending'', Some ''completed'', Some ''archived''}
                         then status t else Some ''pending'')"
      by (simp add: stamped_fields coerce_cases)
    show "category (stamped s t) = (if category t \<in> Some ` set taskCategories then category t
                           else Some ''outros'')"
      by (simp add: stamped_fields coerce_cases)
    show "title (stamped s t) = Some (sanitizeHtml (title t))"
      by (simp add: stamped_fields stamp_reads_def id_draws_def)
    show "sanitizeHtml (title t) \<noteq> []" by (rule sanitize_title_nonempty [OF ok])
    show "updatedAt (stamped s t) =
           Some (clock s (ticks s + (if nonempty (task_id t) then 0 else 1)
                                  + (if createdAt t = None then 1 else 0)) + 3600000)"
      by (simp add: stamped_fields stamp_reads_def id_draws_def)
    show "if nonempty (task_id t) then task_id (stamped s t) = task_id t
          else k = ''id_'' @ rng s (draws s) @ ''_'' @ number_toString (clock s (ticks s))"
      using k(1) by (auto simp: stamped_fields split: if_splits)
    show "case createdAt t of
            Some c \<Rightarrow> createdAt (stamped s t) = Some c
          | None \<Rightarrow> createdAt (stamped s t) =
                      Some (clock s (ticks s + (if nonempty (task_id t) then 0 else 1)) + 3600000)"
      by (simp add: stamped_fields stamp_reads_def id_draws_def split: option.splits)
  qed
qed

theorem C1_saveTask_witness:
  "\<not> blank_title (blank_task\<lparr>title := Some ''Pagar conta'', priority := Some ''alta'',
                                category := Some ''financas''\<rparr>) \<and>
   blank_title (blank_task\<lparr>title := Some ''  ''\<rparr>) \<and>
   fst (saveTask (fresh (\<lambda>n. 1700000000000 + int n) (\<lambda>n. ''k3j9x2m1q''))
          (blank_task\<lparr>title := Some ''  ''\<rparr>)) = Inl TitleRequired \<and>
   (case fst (saveTask (fresh (\<lambda>n. 1700000000000 + int n) (\<lambda>n. ''k3j9x2m1q''))
                (blank_task\<lparr>title := Some ''Pagar conta'', priority := Some ''alta'',
                             category := Some ''financas''\<rparr>)) of
      Inl e \<Rightarrow> None
    | Inr saved \<Rightarrow> Some (title saved, priority saved, category saved, status saved, updatedAt saved,
                         createdAt saved))
     = Some (Some ''Pagar conta'', Some ''alta'', Some ''financas'', Some ''pending'',
             Some 1700003600002, Some 1700003600001)"
  using C1_saveTask_persists_valid_task
          [of "fresh (\<lambda>n. 1700000000000 + int n) (\<lambda>n. ''k3j9x2m1q'')"
              "blank_task\<lparr>title := Some ''Pagar conta'', priority := Some ''alta'',
                           category := Some ''financas''\<rparr>"]
        C1_saveTask_persists_valid_task
          [of "fresh (\<lambda>n. 1700000000000 + int n) (\<lambda>n. ''k3j9x2m1q'')"
              "blank_task\<lparr>title := Some ''  ''\<rparr>"]
  by (auto simp: blank_title_def blank_task_def trim_def is_space_def fresh_def nonempty_def
      sanitizeHtml_def escape_char_def taskCategories_def)

lemma sanitize_plain_replicate:
  "c \<notin> {CHR ''&'', CHR 0xA0, CHR ''<'', CHR ''>''} \<Longrightarrow> sanitizeHtml (Some (replicate n c)) = replicate n c"
  by (induction n) (simp_all add: sanitizeHtml_def escape_char_def)

text \<open>
  C1 as stated fails: a title of 101 characters is accepted and persisted as it is.
\<close>

theorem C1_title_longer_than_100_counterexample:
  "\<not> blank_title (blank_task\<lparr>title := Some (replicate 101 (CHR ''a''))\<rparr>) \<and>
   (case fst (saveTask (fresh (\<lambda>n. 1700000000000 + int n) (\<lambda>n. ''k3j9x2m1q''))
                (blank_task\<lparr>title := Some (replicate 101 (CHR ''a''))\<rparr>)) of
      Inl e \<Rightarrow> None
    | Inr saved \<Rightarrow> map_option length (title saved)) = Some 101"
proof -
  have nb: "\<not> blank_title (blank_task\<lparr>title := Some (replicate 101 (CHR ''a''))\<rparr>)"
    by (simp add: blank_title_def blank_task_def trim_def is_space_def)
  show ?thesis
    using nb by (simp add: saveTask_result stamped_fields sanitize_plain_replicate blank_task_def)
qed

subsection \<open>Completing a task\<close>

lemma recorded_after_put:
  "event_id ev \<noteq> [] \<Longrightarrow> recorded_event (saveToStore_analytics s ev) (event_id ev) = Some ev"
  by (simp add: recorded_event_def getFromStore_analytics_def saveToStore_analytics_def get_by_put_by)

lemma event_id_tracked: "event_id (tracked s ty d) \<noteq> []"
  by (simp add: tracked_def)

lemma trackEvent_recorded:
  "recorded_event (snd (trackEvent s ty d)) (event_id (tracked s ty d)) = Some (tracked s ty d)"
  by (simp add: trackEvent_closed recorded_after_put event_id_tracked)

lemma trackEvent_persisted:
  "persisted_task (snd (trackEvent s ty d)) k = persisted_task s k"
  by (simp add: persisted_task_def trackEvent_tasks)

lemma blank_title_completed [simp]:
  "blank_title (t\<lparr>status := a, completedAt := b\<rparr>) = blank_title t"
  by (simp add: blank_title_def)

lemma completeTask_success:
  assumes "getTask pf s k = (Some (Rec t), s1)" and "\<not> blank_title t"
  shows "completeTask pf s k =
           (True, snd (trackEvent
                        (snd (saveTask (s1\<lparr>ticks := Suc (ticks s1)\<rparr>)
                                (t\<lparr>status := Some ''completed'',
                                   completedAt := Some (clock s1 (ticks s1) + 3600000)\<rparr>)))
                        ''task_completed''
                        (task_completed_data k
                           (stamped (s1\<lparr>ticks := Suc (ticks s1)\<rparr>)
                              (t\<lparr>status := Some ''completed'',
                                 completedAt := Some (clock s1 (ticks s1) + 3600000)\<rparr>)))))"
proof -
  have r: "fst (saveTask (s1\<lparr>ticks := Suc (ticks s1)\<rparr>)
                 (t\<lparr>status := Some ''completed'',
                    completedAt := Some (clock s1 (ticks s1) + 3600000)\<rparr>))
           = Inr (stamped (s1\<lparr>ticks := Suc (ticks s1)\<rparr>)
                    (t\<lparr>status := Some ''completed'',
                       completedAt := Some (clock s1 (ticks s1) + 3600000)\<rparr>))"
    using assms(2) by (intro saveTask_result) simp
  show ?thesis
    using assms(1) r
    by (simp add: completeTask_def Utils_Date_now_def Date_now_def Let_def split_def
        task_completed_data_def)
qed

lemma completeTask_true_iff:
  "fst (completeTask pf s k) \<longleftrightarrow> (\<exists>t. fst (getTask pf s k) = Some (Rec t) \<and> \<not> blank_title t)"
proof (cases "fst (getTask pf s k)")
  case None
  then show ?thesis by (simp add: completeTask_def split_def)
next
  case (Some found)
  show ?thesis
  proof (cases found)
    case (Arr records)
    with Some show ?thesis by (simp add: completeTask_def split_def)
  next
    case (Rec t)
    show ?thesis
    proof (cases "blank_title t")
      case True
      with Some Rec show ?thesis
        by (simp add: completeTask_def split_def saveTask_blank)
    next
      case False
      have "getTask pf s k = (Some (Rec t), snd (getTask pf s k))"
        using Some Rec by (metis prod.collapse)
      from completeTask_success [OF this False] Some Rec False show ?thesis by simp
    qed
  qed
qed


lemma ceil_div_is_ceiling:
  "ceil_div a 86400000 = \<lceil>real_of_int a / 86400000\<rceil>"
proof -
  have "\<lceil>real_of_int a / real_of_int 86400000\<rceil> = - (- a div 86400000)"
    by (rule ceiling_divide_eq_div)
  then show ?thesis by (simp add: ceil_div_def)
qed

lemma getTask_state: "snd (getTask pf s k) = s"
  by (simp add: getTask_def getTasks_def filtered_tasks_def no_filters_def split_def Let_def)

text \<open>
  C10. When \<^verbatim>\<open>completeTask(id)\<close> answers \<^verbatim>\<open>true\<close>, a task was found; the task it
  persists is completed, with \<^verbatim>\<open>completedAt\<close> the clock reading of the call and with
  the \<^verbatim>\<open>createdAt\<close> of the task found when it had one; and a
  \<^verbatim>\<open>task_completed\<close> event for the id is recorded whose \<^verbatim>\<open>daysToComplete\<close> is,
  when the task has a due date, the ceiling of the days from \<^verbatim>\<open>createdAt\<close> to
  \<^verbatim>\<open>completedAt\<close> (the due date itself does not enter), and \<^verbatim>\<open>null\<close> when it has
  none.
\<close>

theorem C10_completeTask_days_from_creation:
  "fst (completeTask pf s k) \<longrightarrow>
     (\<exists>t saved saved_id ev finished made.
        fst (getTask pf s k) = Some (Rec t) \<and>
        task_id saved = Some saved_id \<and>
        persisted_task (snd (completeTask pf s k)) saved_id = Some saved \<and>
        status saved = Some ''completed'' \<and> dueDate saved = dueDate t \<and>
        completedAt saved = Some finished \<and> finished = clock s (ticks s) + 3600000 \<and>
        createdAt saved = Some made \<and>
        (case createdAt t of Some c \<Rightarrow> made = c | None \<Rightarrow> True) \<and>
        recorded_event (snd (completeTask pf s k)) (event_id ev) = Some ev \<and>
        etype ev = ''task_completed'' \<and>
        map_of (edata ev) ''taskId'' = Some (JStr k) \<and>
        map_of (edata ev) ''daysToComplete'' =
          Some (case dueDate t of
                  None \<Rightarrow> JNull
                | Some due \<Rightarrow> JNum \<lceil>real_of_int (finished - made) / 86400000\<rceil>))"
proof
  assume "fst (completeTask pf s k)"
  then obtain t where t: "fst (getTask pf s k) = Some (Rec t)" "\<not> blank_title t"
    using completeTask_true_iff by blast
  define s1 where "s1 = snd (getTask pf s k)"
  define s2 where "s2 = s1\<lparr>ticks := Suc (ticks s1)\<rparr>"
  define finished where "finished = clock s1 (ticks s1) + 3600000"
  define t' where "t' = t\<lparr>status := Some ''completed'', completedAt := Some finished\<rparr>"
  define saved where "saved = stamped s2 t'"
  define s3 where "s3 = snd (saveTask s2 t')"
  define ev where "ev = tracked s3 ''task_completed'' (task_completed_data k saved)"
  have g: "getTask pf s k = (Some (Rec t), s1)"
    using t(1) by (simp add: s1_def prod_eq_iff)
  have run: "snd (completeTask pf s k) = snd (trackEvent s3 ''task_completed'' (task_completed_data k saved))"
    using completeTask_success [OF g t(2)]
    by (simp add: s2_def s3_def t'_def saved_def finished_def)
  have nb: "\<not> blank_title t'" using t(2) by (simp add: t'_def)
  obtain saved_id where sid: "task_id saved = Some saved_id"
    using nonempty_stamped_id [of s2 t'] by (auto simp: saved_def nonempty_def split: option.splits)
  obtain made where made: "createdAt saved = Some made" "case createdAt t of Some c \<Rightarrow> made = c | None \<Rightarrow> True"
    by (cases "createdAt t") (simp_all add: saved_def stamped_fields t'_def)
  have fin: "completedAt saved = Some finished" "finished = clock s (ticks s) + 3600000"
    by (simp_all add: saved_def stamped_fields t'_def finished_def s1_def getTask_state)
  have due: "dueDate saved = dueDate t"
    by (simp add: saved_def stamped_fields t'_def)
  have "persisted_task s3 saved_id = Some saved"
    unfolding s3_def saved_def using nb sid [unfolded saved_def] by (rule saveTask_persisted)
  then have pers: "persisted_task (snd (completeTask pf s k)) saved_id = Some saved"
    by (simp add: run trackEvent_persisted)
  have rec: "recorded_event (snd (completeTask pf s k)) (event_id ev) = Some ev"
    by (simp add: run ev_def trackEvent_recorded)
  have st: "status saved = Some ''completed''"
    by (simp add: saved_def stamped_fields t'_def coerce_def)
  have days: "map_of (edata ev) ''daysToComplete'' =
          Some (case dueDate t of
                  None \<Rightarrow> JNull
                | Some due \<Rightarrow> JNum \<lceil>real_of_int (finished - made) / 86400000\<rceil>)"
    using made(1) fin due
    by (simp add: ev_def tracked_def task_completed_data_def daysToComplete_def date_minus_def
        ceil_div_is_ceiling del: of_int_diff split: option.splits)
  have ty: "etype ev = ''task_completed''" "map_of (edata ev) ''taskId'' = Some (JStr k)"
    by (simp_all add: ev_def tracked_def task_completed_data_def)
  show "\<exists>t saved saved_id ev finished made.
        fst (getTask pf s k) = Some (Rec t) \<and>
        task_id saved = Some saved_id \<and>
        persisted_task (snd (completeTask pf s k)) saved_id = Some saved \<and>
        status saved = Some ''completed'' \<and> dueDate saved = dueDate t \<and>
        completedAt saved = Some finished \<and> finished = clock s (ticks s) + 3600000 \<and>
        createdAt saved = Some made \<and>
        (case createdAt t of Some c \<Rightarrow> made = c | None \<Rightarrow> True) \<and>
        recorded_event (snd (completeTask pf s k)) (event_id ev) = Some ev \<and>
        etype ev = ''task_completed'' \<and>
        map_of (edata ev) ''taskId'' = Some (JStr k) \<and>
        map_of (edata ev) ''daysToComplete'' =
          Some (case dueDate t of
                  None \<Rightarrow> JNull
                | Some due \<Rightarrow> JNum \<lceil>real_of_int (finished - made) / 86400000\<rceil>)"
    using t(1) sid pers st due fin made rec ty days by blast
qed

theorem C10_completeTask_witness:
  "fst (completeTask ascii_platform
          ((fresh (\<lambda>n. 200000000 + int n) (\<lambda>n. ''k3j9x2m1q''))
             \<lparr>idb_tasks := [sample_task ''a'' ''alta'' (Some 500000000) 1000]\<rparr>) ''a'') \<and>
   (\<exists>ev. recorded_event (snd (completeTask ascii_platform
          ((fresh (\<lambda>n. 200000000 + int n) (\<lambda>n. ''k3j9x2m1q''))
             \<lparr>idb_tasks := [sample_task ''a'' ''alta'' (Some 500000000) 1000]\<rparr>) ''a'')) (event_id ev)
           = Some ev \<and>
         etype ev = ''task_completed'' \<and>
         map_of (edata ev) ''daysToComplete'' = Some (JNum 3))"
proof -
  let ?s = "(fresh (\<lambda>n. 200000000 + int n) (\<lambda>n. ''k3j9x2m1q''))
             \<lparr>idb_tasks := [sample_task ''a'' ''alta'' (Some 500000000) 1000]\<rparr>"
  have g: "fst (getTask ascii_platform ?s ''a'') = Some (Rec (sample_task ''a'' ''alta'' (Some 500000000) 1000))"
    by (simp add: getTask_def getFromStore_tasks_def get_by_def nonempty_def fresh_def sample_task_def)
  have nb: "\<not> blank_title (sample_task ''a'' ''alta'' (Some 500000000) 1000)"
    by (simp add: blank_title_def sample_task_def trim_def is_space_def)
  have ok: "fst (completeTask ascii_platform ?s ''a'')"
    using g nb by (auto simp: completeTask_true_iff)
  have c: "clock ?s (ticks ?s) = 200000000" by (simp add: fresh_def)
  have "\<exists>t saved saved_id ev finished made.
        fst (getTask ascii_platform ?s ''a'') = Some (Rec t) \<and>
        task_id saved = Some saved_id \<and>
        persisted_task (snd (completeTask ascii_platform ?s ''a'')) saved_id = Some saved \<and>
        status saved = Some ''completed'' \<and> dueDate saved = dueDate t \<and>
        completedAt saved = Some finished \<and> finished = clock ?s (ticks ?s) + 3600000 \<and>
        createdAt saved = Some made \<and>
        (case createdAt t of Some c \<Rightarrow> made = c | None \<Rightarrow> True) \<and>
        recorded_event (snd (completeTask ascii_platform ?s ''a'')) (event_id ev) = Some ev \<and>
        etype ev = ''task_completed'' \<and>
        map_of (edata ev) ''taskId'' = Some (JStr ''a'') \<and>
        map_of (edata ev) ''daysToComplete'' =
          Some (case dueDate t of
                  None \<Rightarrow> JNull
                | Some due \<Rightarrow> JNum \<lceil>real_of_int (finished - made) / 86400000\<rceil>)"
    using C10_completeTask_days_from_creation [of ascii_platform ?s "''a''"] ok by (rule mp)
  then obtain t saved saved_id ev finished made where
    h: "fst (getTask ascii_platform ?s ''a'') = Some (Rec t)"
       "task_id saved = Some saved_id"
       "persisted_task (snd (completeTask ascii_platform ?s ''a'')) saved_id = Some saved"
       "status saved = Some ''completed''" "dueDate saved = dueDate t"
       "completedAt saved = Some finished" "finished = clock ?s (ticks ?s) + 3600000"
       "createdAt saved = Some made" "(case createdAt t of Some c \<Rightarrow> made = c | None \<Rightarrow> True)"
       "recorded_event (snd (completeTask ascii_platform ?s ''a'')) (event_id ev) = Some ev"
       "etype ev = ''task_completed''"
       "map_of (edata ev) ''taskId'' = Some (JStr ''a'')"
       "map_of (edata ev) ''daysToComplete'' =
          Some (case dueDate t of
                  None \<Rightarrow> JNull
                | Some due \<Rightarrow> JNum \<lceil>real_of_int (finished - made) / 86400000\<rceil>)"
    by (elim exE conjE) (rule that)
  from h(1) g have t: "t = sample_task ''a'' ''alta'' (Some 500000000) 1000" by simp
  from h(9) t have m: "made = 1000" by (simp add: sample_task_def)
  from h(7) c have f: "finished = 203600000" by simp
  have "map_of (edata ev) ''daysToComplete'' = Some (JNum 3)"
    using h(13) by (simp add: t m f sample_task_def)
  with ok h(10,11) show ?thesis by blast
qed

subsection \<open>Cleanup of old analytics\<close>

lemma delete_fold_db:
  "db s \<Longrightarrow>
   foldl (\<lambda>acc ev. deleteFromStore_analytics acc (event_id ev)) s evs =
     s\<lparr>idb_analytics := filter (\<lambda>e. event_id e \<notin> event_id ` set evs) (idb_analytics s)\<rparr>"
proof (induction evs arbitrary: s)
  case Nil
  then show ?case by simp
next
  case (Cons ev evs)
  have "db (deleteFromStore_analytics s (event_id ev))"
    using Cons.prems by (simp add: deleteFromStore_analytics_def)
  from Cons.IH [OF this] Cons.prems show ?case
    by (simp add: deleteFromStore_analytics_def delete_by_def conj_commute)
qed

lemma getAnalytics_endDate_db:
  "db s \<Longrightarrow> getAnalytics s (no_analytics_filters\<lparr>a_endDate := Some d\<rparr>) =
     filter (\<lambda>e. date e \<le> d) (idb_analytics s)"
  by (simp add: getAnalytics_def no_analytics_filters_def getFromStore_analytics_def as_array_def)

lemma filter_other_ids:
  "distinct (map event_id xs) \<Longrightarrow>
   filter (\<lambda>e. event_id e \<notin> event_id ` {x \<in> set xs. P x}) xs = filter (\<lambda>e. \<not> P e) xs"
proof (rule filter_cong [OF refl])
  fix e assume d: "distinct (map event_id xs)" and e: "e \<in> set xs"
  have "event_id e \<in> event_id ` {x \<in> set xs. P x} \<longleftrightarrow> P e"
  proof
    assume "event_id e \<in> event_id ` {x \<in> set xs. P x}"
    then obtain x where x: "x \<in> set xs" "P x" "event_id x = event_id e" by auto
    with d e have "x = e" by (metis distinct_map inj_onD)
    with x show "P e" by simp
  next
    assume "P e" with e show "event_id e \<in> event_id ` {x \<in> set xs. P x}" by blast
  qed
  then show "(event_id e \<notin> event_id ` {x \<in> set xs. P x}) = (\<not> P e)" by simp
qed

text \<open>
  C8 (amended). With the database open (keys of the analytics store are distinct),
  \<^verbatim>\<open>cleanupOldData\<close> returns \<^verbatim>\<open>true\<close>, and leaves the state as it was but for the
  clock reading and for the analytics store, from which exactly the events dated at or
  before the cutoff are gone. The cutoff is the instant that
  \<^verbatim>\<open>setDate(getDate() - 30)\<close> makes of the clock reading: thirty calendar days
  earlier in local time, whatever clock changes fall in between.
\<close>

theorem C8_cleanupOldData:
  "db s \<and> distinct (map event_id (idb_analytics s)) \<longrightarrow>
     fst (cleanupOldData pf s) = JBool True \<and>
     snd (cleanupOldData pf s) =
       s\<lparr>ticks := Suc (ticks s),
         idb_analytics :=
           filter (\<lambda>e. \<not> date e \<le> setDate_back pf (clock s (ticks s)) 30) (idb_analytics s)\<rparr>"
proof
  assume a: "db s \<and> distinct (map event_id (idb_analytics s))"
  let ?s1 = "s\<lparr>ticks := Suc (ticks s)\<rparr>"
  let ?th = "setDate_back pf (clock s (ticks s)) 30"
  have db1: "db ?s1" using a by simp
  have old: "getAnalytics ?s1 (no_analytics_filters\<lparr>a_endDate := Some ?th\<rparr>) =
               filter (\<lambda>e. date e \<le> ?th) (idb_analytics s)"
    using getAnalytics_endDate_db [OF db1] by simp
  have "snd (cleanupOldData pf s) =
          foldl (\<lambda>acc ev. deleteFromStore_analytics acc (event_id ev)) ?s1
            (filter (\<lambda>e. date e \<le> ?th) (idb_analytics s))"
    using old by (simp add: cleanupOldData_def Date_now_def Let_def)
  also have "\<dots> = ?s1\<lparr>idb_analytics :=
        filter (\<lambda>e. event_id e \<notin> event_id ` set (filter (\<lambda>e. date e \<le> ?th) (idb_analytics s)))
          (idb_analytics ?s1)\<rparr>"
    by (rule delete_fold_db [OF db1])
  also have "\<dots> = s\<lparr>ticks := Suc (ticks s),
         idb_analytics := filter (\<lambda>e. \<not> date e \<le> ?th) (idb_analytics s)\<rparr>"
    using filter_other_ids [of "idb_analytics s" "\<lambda>e. date e \<le> ?th"] a by simp
  finally show "fst (cleanupOldData pf s) = JBool True \<and>
     snd (cleanupOldData pf s) =
       s\<lparr>ticks := Suc (ticks s),
         idb_analytics := filter (\<lambda>e. \<not> date e \<le> ?th) (idb_analytics s)\<rparr>"
    by (simp add: cleanupOldData_def split_def Let_def)
qed

theorem C8_cleanupOldData_witness:
  "db ((fresh (\<lambda>n. 3000000000 + int n) (\<lambda>n. ''k3j9x2m1q''))
             \<lparr>idb_analytics := [sample_event ''old'' 1000, sample_event ''young'' 2999000000]\<rparr>) \<and>
   distinct (map event_id [sample_event ''old'' 1000, sample_event ''young'' 2999000000]) \<and>
   idb_analytics (snd (cleanupOldData ascii_platform
          ((fresh (\<lambda>n. 3000000000 + int n) (\<lambda>n. ''k3j9x2m1q''))
             \<lparr>idb_analytics := [sample_event ''old'' 1000, sample_event ''young'' 2999000000]\<rparr>)))
     = [sample_event ''young'' 2999000000]"
  using C8_cleanupOldData
     [of "(fresh (\<lambda>n. 3000000000 + int n) (\<lambda>n. ''k3j9x2m1q''))
             \<lparr>idb_analytics := [sample_event ''old'' 1000, sample_event ''young'' 2999000000]\<rparr>"
         ascii_platform]
  by (simp add: fresh_def sample_event_def ascii_platform_def)

text \<open>
  C8 as stated fails: in a local time without clock changes two events are removed (one
  of them dated exactly thirty days before the clock reading), and the value returned is
  \<^verbatim>\<open>true\<close>, not the count 2.
\<close>

theorem C8_returns_true_counterexample:
  "fst (cleanupOldData ascii_platform
          ((fresh (\<lambda>n. 3000000000 + int n) (\<lambda>n. ''k3j9x2m1q''))
             \<lparr>idb_analytics := [sample_event ''old'' 1000, sample_event ''edge'' 408000000,
                                sample_event ''young'' 2999000000]\<rparr>)) = JBool True \<and>
   fst (cleanupOldData ascii_platform
          ((fresh (\<lambda>n. 3000000000 + int n) (\<lambda>n. ''k3j9x2m1q''))
             \<lparr>idb_analytics := [sample_event ''old'' 1000, sample_event ''edge'' 408000000,
                                sample_event ''young'' 2999000000]\<rparr>)) \<noteq> JNum 2 \<and>
   map event_id (idb_analytics (snd (cleanupOldData ascii_platform
          ((fresh (\<lambda>n. 3000000000 + int n) (\<lambda>n. ''k3j9x2m1q''))
             \<lparr>idb_analytics := [sample_event ''old'' 1000, sample_event ''edge'' 408000000,
                                sample_event ''young'' 2999000000]\<rparr>)))) = [''young'']"
  by (simp add: cleanupOldData_def Date_now_def Let_def fresh_def getAnalytics_def
      no_analytics_filters_def getFromStore_analytics_def as_array_def sample_event_def ascii_platform_def
      deleteFromStore_analytics_def delete_by_def)

subsection \<open>Import stops at the first invalid task\<close>

lemma import_tasks_Cons_ok:
  "\<not> blank_title t \<Longrightarrow> import_tasks s (t # ts) = import_tasks (snd (saveTask s t)) ts"
  by (simp add: split_def saveTask_result)

lemma import_tasks_blank:
  "blank_title t \<Longrightarrow> import_tasks s (t # ts) = (Inl TitleRequired, s)"
  by (simp add: saveTask_blank)

lemma import_tasks_ok:
  "\<forall>t \<in> set xs. \<not> blank_title t \<Longrightarrow> fst (import_tasks s xs) = Inr ()"
proof (induction xs arbitrary: s)
  case Nil
  then show ?case by simp
next
  case (Cons t ts)
  then have nb: "\<not> blank_title t" and rest: "\<forall>t \<in> set ts. \<not> blank_title t" by simp_all
  show ?case
    unfolding import_tasks_Cons_ok [OF nb] by (rule Cons.IH [OF rest])
qed


lemma saveTask_frame:
  assumes "\<not> blank_title t"
  shows "db (snd (saveTask s t)) = db s"
    and "idb_settings (snd (saveTask s t)) = idb_settings s"
    and "kv_settings (snd (saveTask s t)) = kv_settings s"
    and "clock (snd (saveTask s t)) = clock s"
    and "rng (snd (saveTask s t)) = rng s"
  by (simp_all add: saveTask_state [OF assms] trackEvent_closed saveToStore_analytics_def
      saveToStore_tasks_def advance_def)




lemma kv_key_inject: "i \<noteq> [] \<Longrightarrow> k \<noteq> [] \<Longrightarrow> kv_key n (Some i) = kv_key n (Some k) \<longleftrightarrow> i = k"
  by (simp add: kv_key_def)













subsection \<open>Import of an export\<close>

lemma getTasks_state: "snd (getTasks pf s no_filters) = s"
  by (simp add: getTasks_def filtered_tasks_def no_filters_def split_def Let_def)

lemma getTasks_db_all:
  "db s \<Longrightarrow> fst (getTasks pf s no_filters) = array_sort compareTasks (idb_tasks s)"
  by (simp add: getTasks_def filtered_tasks_def no_filters_def split_def Let_def nonempty_def
      getFromStore_tasks_def as_array_def)

lemma exportData_closed:
  "exportData pf s =
     (Document \<lparr>doc_tasks = Some (fst (getTasks pf s no_filters)),
                 doc_settings = Some (getAllSettings s),
                 doc_analytics = getAnalytics s no_analytics_filters,
                 doc_exportDate = Some (clock s (ticks s) + 3600000),
                 doc_version = dbVersion\<rparr>,
      s\<lparr>ticks := Suc (ticks s)\<rparr>)"
  by (simp add: exportData_def split_def Let_def getTasks_state Utils_Date_now_def Date_now_def)

lemma persisted_put:
  assumes "task_id r = Some i" "i \<noteq> []"
  shows "persisted_task (saveToStore_tasks s r) k = (if k = i then Some r else persisted_task s k)"
proof (cases "db s")
  case True
  then show ?thesis
    using assms
    by (cases "k = []")
       (auto simp: persisted_task_def getFromStore_tasks_def saveToStore_tasks_def
          nonempty_def get_by_put_by split: option.splits stored.splits)
next
  case False
  then show ?thesis
    using assms
    by (cases "k = []")
       (auto simp: persisted_task_def getFromStore_tasks_def saveToStore_tasks_def
          kv_key_def split: option.splits stored.splits)
qed

lemma persisted_advance: "persisted_task (advance s n m) k = persisted_task s k"
  by (simp add: persisted_task_def getFromStore_tasks_def advance_def)

lemma saveTask_persisted_task:
  assumes "\<not> blank_title t"
  shows "persisted_task (snd (saveTask s t)) k =
           (if Some k = task_id (stamped s t) then Some (stamped s t) else persisted_task s k)"
proof -
  obtain i where i: "task_id (stamped s t) = Some i" "i \<noteq> []"
    using nonempty_stamped_id [of s t] by (auto simp: nonempty_def split: option.splits)
  show ?thesis
    by (auto simp: saveTask_state [OF assms] trackEvent_persisted persisted_put [OF i] persisted_advance i)
qed

lemma stamped_saved_form:
  "saved_form t \<Longrightarrow> stamped s t = resaved t (clock s (ticks s) + 3600000)"
  by (rule task.equality)
     (auto simp: saved_form_def resaved_def stamped_fields stamp_reads_def id_draws_def coerce_def)


lemma saved_form_not_blank: "saved_form t \<Longrightarrow> \<not> blank_title t"
  by (simp add: saved_form_def)

lemma task_id_resaved [simp]: "task_id (resaved t u) = task_id t"
  by (simp add: resaved_def)

lemma saveTask_ticks: "\<not> blank_title t \<Longrightarrow> ticks s \<le> ticks (snd (saveTask s t))"
  by (simp add: saveTask_state trackEvent_closed saveToStore_analytics_def saveToStore_tasks_def
      advance_def)

lemma import_tasks_persisted:
  assumes "\<forall>t \<in> set ts. saved_form t" and "distinct (map task_id ts)"
  shows "(Some k \<notin> task_id ` set ts \<longrightarrow>
            persisted_task (snd (import_tasks s ts)) k = persisted_task s k) \<and>
         (\<forall>t \<in> set ts. task_id t = Some k \<longrightarrow>
            (\<exists>n. ticks s \<le> n \<and>
                 persisted_task (snd (import_tasks s ts)) k = Some (resaved t (clock s n + 3600000))))"
  using assms
proof (induction ts arbitrary: s)
  case Nil
  then show ?case by simp
next
  case (Cons t ts)
  have sf: "saved_form t" and rest: "\<forall>t \<in> set ts. saved_form t" using Cons.prems(1) by simp_all
  have dist: "distinct (map task_id ts)" and fresh_id: "task_id t \<notin> task_id ` set ts"
    using Cons.prems(2) by simp_all
  have nb: "\<not> blank_title t" using sf by (rule saved_form_not_blank)
  let ?s1 = "snd (saveTask s t)"
  have st: "stamped s t = resaved t (clock s (ticks s) + 3600000)"
    using sf by (rule stamped_saved_form)
  have p1: "persisted_task ?s1 k =
              (if Some k = task_id t then Some (resaved t (clock s (ticks s) + 3600000))
               else persisted_task s k)"
    by (simp add: saveTask_persisted_task [OF nb] st)
  have ck: "clock ?s1 = clock s" by (rule saveTask_frame(4) [OF nb])
  have tk: "ticks s \<le> ticks ?s1" by (rule saveTask_ticks [OF nb])
  note ih = Cons.IH [OF rest dist, of ?s1]
  have run: "import_tasks s (t # ts) = import_tasks ?s1 ts" by (rule import_tasks_Cons_ok [OF nb])
  show ?case
  proof (intro conjI impI ballI)
    assume "Some k \<notin> task_id ` set (t # ts)"
    then have "Some k \<notin> task_id ` set ts" "Some k \<noteq> task_id t" by auto
    with ih p1 show "persisted_task (snd (import_tasks s (t # ts))) k = persisted_task s k"
      unfolding run by simp
  next
    fix u assume u: "u \<in> set (t # ts)" "task_id u = Some k"
    show "\<exists>n. ticks s \<le> n \<and>
            persisted_task (snd (import_tasks s (t # ts))) k = Some (resaved u (clock s n + 3600000))"
    proof (cases "u \<in> set ts")
      case True
      with ih u(2) obtain n where n: "ticks ?s1 \<le> n"
        "persisted_task (snd (import_tasks ?s1 ts)) k = Some (resaved u (clock ?s1 n + 3600000))"
        by blast
      from n(1) tk have "ticks s \<le> n" by simp
      moreover from n(2) have "persisted_task (snd (import_tasks ?s1 ts)) k =
          Some (resaved u (clock s n + 3600000))" by (simp only: ck)
      ultimately show ?thesis unfolding run by blast
    next
      case False
      with u have ut: "u = t" by simp
      with u(2) fresh_id have "Some k \<notin> task_id ` set ts" by simp
      with ih have "persisted_task (snd (import_tasks ?s1 ts)) k = persisted_task ?s1 k" by simp
      with p1 u(2) ut have "persisted_task (snd (import_tasks ?s1 ts)) k =
          Some (resaved u (clock s (ticks s) + 3600000))" by simp
      then show ?thesis unfolding run by (intro exI [of _ "ticks s"]) simp
    qed
  qed
qed

lemma persisted_setSetting:
  "persisted_task (snd (setSetting s a b)) k = persisted_task s k"
  by (simp add: setSetting_def saveToStore_settings_def persisted_task_def getFromStore_tasks_def)

lemma persisted_import_settings:
  "persisted_task (import_settings s es) k = persisted_task s k"
proof (induction s es rule: import_settings.induct)
  case (1 s)
  then show ?case by simp
next
  case (2 s a b rest)
  then show ?case by (simp add: persisted_setSetting)
qed

lemma importData_success:
  assumes "doc_tasks d = Some ts" and "\<forall>t \<in> set ts. \<not> blank_title t"
  shows "fst (importData s (Document d)) = Inr True"
    and "persisted_task (snd (importData s (Document d))) k = persisted_task (snd (import_tasks s ts)) k"
proof -
  have ok: "fst (import_tasks s ts) = Inr ()" using assms(2) by (rule import_tasks_ok)
  show "fst (importData s (Document d)) = Inr True"
    using ok by (simp add: importData_def assms(1) split_def Let_def)
  show "persisted_task (snd (importData s (Document d))) k = persisted_task (snd (import_tasks s ts)) k"
    using ok
    by (simp add: importData_def assms(1) split_def Let_def trackEvent_persisted persisted_import_settings
        split: option.splits)
qed

lemma persisted_db_Some:
  "db s \<Longrightarrow> persisted_task s k = Some t \<Longrightarrow> t \<in> set (idb_tasks s) \<and> task_id t = Some k"
  by (auto simp: persisted_task_def getFromStore_tasks_def get_by_def nonempty_def find_Some_iff
      split: if_splits option.splits stored.splits)

lemma persisted_db_None:
  "db s \<Longrightarrow> persisted_task s k = None \<Longrightarrow> k \<noteq> [] \<Longrightarrow> Some k \<notin> task_id ` set (idb_tasks s)"
  by (auto simp: persisted_task_def getFromStore_tasks_def get_by_def nonempty_def find_None_iff
      split: if_splits option.splits stored.splits)


lemma persisted_tick: "persisted_task (s\<lparr>ticks := n\<rparr>) k = persisted_task s k"
  by (simp add: persisted_task_def getFromStore_tasks_def)

text \<open>
  C7 (amended). With the database open, its task keys distinct and every stored task in
  the form in which \<^verbatim>\<open>saveTask\<close> persists tasks, \<^verbatim>\<open>importData\<close> applied to what
  \<^verbatim>\<open>exportData\<close> returns succeeds, and the same keys hold a task as before. Each task
  is the earlier one with its title and its description escaped once more and with
  \<^verbatim>\<open>updatedAt\<close> set to a clock reading taken after the one of the export; its other
  fields are unchanged.
\<close>

theorem C7_import_of_export:
  "db s \<and> distinct (map task_id (idb_tasks s)) \<and> (\<forall>t \<in> set (idb_tasks s). saved_form t) \<longrightarrow>
     fst (importData (snd (exportData pf s)) (fst (exportData pf s))) = Inr True \<and>
     (\<forall>k. case persisted_task s k of
             None \<Rightarrow>
               persisted_task (snd (importData (snd (exportData pf s)) (fst (exportData pf s)))) k = None
           | Some t \<Rightarrow>
               (\<exists>n. ticks s < n \<and>
                     persisted_task (snd (importData (snd (exportData pf s)) (fst (exportData pf s)))) k
                      = Some (resaved t (clock s n + 3600000))))"
proof
  assume a: "db s \<and> distinct (map task_id (idb_tasks s)) \<and> (\<forall>t \<in> set (idb_tasks s). saved_form t)"
  define ts where "ts = array_sort compareTasks (idb_tasks s)"
  define s1 where "s1 = s\<lparr>ticks := Suc (ticks s)\<rparr>"
  define d where "d = \<lparr>doc_tasks = Some ts, doc_settings = Some (getAllSettings s),
                       doc_analytics = getAnalytics s no_analytics_filters,
                       doc_exportDate = Some (clock s (ticks s) + 3600000),
                       doc_version = dbVersion\<rparr>"
  have ex: "exportData pf s = (Document d, s1)"
    using a by (simp add: exportData_closed getTasks_db_all ts_def s1_def d_def)
  have dt: "doc_tasks d = Some ts" by (simp add: d_def)
  have set_ts: "set ts = set (idb_tasks s)" by (simp add: ts_def set_array_sort)
  have "mset (map task_id ts) = mset (map task_id (idb_tasks s))"
    by (simp add: ts_def mset_array_sort)
  then have dist: "distinct (map task_id ts)"
    using a by (metis mset_eq_imp_distinct_iff)
  have sf: "\<forall>t \<in> set ts. saved_form t" using a set_ts by simp
  then have nb: "\<forall>t \<in> set ts. \<not> blank_title t" by (simp add: saved_form_not_blank)
  have ok: "fst (importData s1 (Document d)) = Inr True" by (rule importData_success(1) [OF dt nb])
  have p: "persisted_task (snd (importData s1 (Document d))) k = persisted_task (snd (import_tasks s1 ts)) k" for k
    by (rule importData_success(2) [OF dt nb])
  have ck: "clock s1 = clock s" by (simp add: s1_def)
  have p1: "persisted_task s1 k = persisted_task s k" for k by (simp add: s1_def persisted_tick)
  have each: "case persisted_task s k of
             None \<Rightarrow> persisted_task (snd (importData s1 (Document d))) k = None
           | Some t \<Rightarrow> (\<exists>n. ticks s < n \<and> persisted_task (snd (importData s1 (Document d))) k
                      = Some (resaved t (clock s n + 3600000)))" for k
  proof (cases "persisted_task s k")
    case None
    have "Some k \<notin> task_id ` set ts"
    proof (cases "k = []")
      case True
      have "task_id t \<noteq> Some []" if "t \<in> set ts" for t
        using sf that by (auto simp: saved_form_def nonempty_def)
      then show ?thesis using True by (metis imageE)
    next
      case False
      then show ?thesis using persisted_db_None [of s k] a None set_ts by simp
    qed
    with import_tasks_persisted [OF sf dist, of k s1] None show ?thesis by (simp add: p p1)
  next
    case (Some t)
    then have "t \<in> set ts" "task_id t = Some k" using persisted_db_Some [of s k t] a set_ts by simp_all
    with import_tasks_persisted [OF sf dist, of k s1] obtain n where n: "ticks s1 \<le> n"
      "persisted_task (snd (import_tasks s1 ts)) k = Some (resaved t (clock s1 n + 3600000))" by blast
    from n(1) have "ticks s < n" by (simp add: s1_def)
    with n(2) show ?thesis using Some by (auto simp: p ck)
  qed
  show "fst (importData (snd (exportData pf s)) (fst (exportData pf s))) = Inr True \<and>
     (\<forall>k. case persisted_task s k of
             None \<Rightarrow>
               persisted_task (snd (importData (snd (exportData pf s)) (fst (exportData pf s)))) k = None
           | Some t \<Rightarrow>
               (\<exists>n. ticks s < n \<and>
                     persisted_task (snd (importData (snd (exportData pf s)) (fst (exportData pf s)))) k
                      = Some (resaved t (clock s n + 3600000))))"
    unfolding ex fst_conv snd_conv using ok each by blast
qed

lemma escaped_task_saved_form: "saved_form escaped_task"
  by (simp add: saved_form_def escaped_task_def sample_task_def nonempty_def blank_title_def trim_def
      is_space_def taskCategories_def)

lemma escaped_task_persisted:
  "persisted_task ((fresh c r)\<lparr>idb_tasks := [escaped_task]\<rparr>) ''a'' = Some escaped_task"
  by (simp add: persisted_task_def getFromStore_tasks_def fresh_def nonempty_def get_by_def
      escaped_task_def sample_task_def)

theorem C7_import_of_export_witness:
  "db ((fresh (\<lambda>n. 200000000 + int n) (\<lambda>n. ''k3j9x2m1q''))\<lparr>idb_tasks := [escaped_task]\<rparr>) \<and>
   distinct (map task_id [escaped_task]) \<and> saved_form escaped_task \<and>
   fst (importData
          (snd (exportData ascii_platform
                  ((fresh (\<lambda>n. 200000000 + int n) (\<lambda>n. ''k3j9x2m1q''))\<lparr>idb_tasks := [escaped_task]\<rparr>)))
          (fst (exportData ascii_platform
                  ((fresh (\<lambda>n. 200000000 + int n) (\<lambda>n. ''k3j9x2m1q''))\<lparr>idb_tasks := [escaped_task]\<rparr>))))
     = Inr True \<and>
   (\<exists>n. 0 < n \<and> persisted_task (snd (importData
          (snd (exportData ascii_platform
                  ((fresh (\<lambda>n. 200000000 + int n) (\<lambda>n. ''k3j9x2m1q''))\<lparr>idb_tasks := [escaped_task]\<rparr>)))
          (fst (exportData ascii_platform
                  ((fresh (\<lambda>n. 200000000 + int n) (\<lambda>n. ''k3j9x2m1q''))\<lparr>idb_tasks := [escaped_task]\<rparr>)))))
          ''a''
        = Some (resaved escaped_task (200000000 + int n + 3600000)))"
proof -
  let ?s = "(fresh (\<lambda>n. 200000000 + int n) (\<lambda>n. ''k3j9x2m1q''))\<lparr>idb_tasks := [escaped_task]\<rparr>"
  have h1: "db ?s" by (simp add: fresh_def)
  have h2: "distinct (map task_id [escaped_task])" by simp
  have h3: "saved_form escaped_task" by (rule escaped_task_saved_form)
  have hyp: "db ?s \<and> distinct (map task_id (idb_tasks ?s)) \<and> (\<forall>t \<in> set (idb_tasks ?s). saved_form t)"
    using h1 h3 by simp
  note c = C7_import_of_export [of ?s ascii_platform, THEN mp, OF hyp]
  have r1: "fst (importData (snd (exportData ascii_platform ?s)) (fst (exportData ascii_platform ?s))) = Inr True"
    using c by (elim conjE)
  have "case persisted_task ?s ''a'' of
             None \<Rightarrow>
               persisted_task (snd (importData (snd (exportData ascii_platform ?s)) (fst (exportData ascii_platform ?s)))) ''a'' = None
           | Some t \<Rightarrow>
               (\<exists>n. ticks ?s < n \<and> persisted_task (snd (importData (snd (exportData ascii_platform ?s)) (fst (exportData ascii_platform ?s)))) ''a''
                      = Some (resaved t (clock ?s n + 3600000)))"
    using c by (elim conjE) (erule allE)
  then have r2: "\<exists>n. 0 < n \<and> persisted_task (snd (importData (snd (exportData ascii_platform ?s)) (fst (exportData ascii_platform ?s)))) ''a''
                      = Some (resaved escaped_task (200000000 + int n + 3600000))"
    by (simp add: escaped_task_persisted) (simp add: fresh_def)
  show ?thesis using h1 h2 h3 r1 r2 by (intro conjI)
qed

text \<open>
  C7 as stated fails: the stored title \<^verbatim>\<open>R&amp;D\<close> comes back as
  \<^verbatim>\<open>R&amp;amp;D\<close>, and \<^verbatim>\<open>updatedAt\<close> is the time of the import.
\<close>

theorem C7_title_escaped_again_counterexample:
  "map_option (\<lambda>t. (title t, updatedAt t))
     (persisted_task ((fresh (\<lambda>n. 200000000 + int n) (\<lambda>n. ''k3j9x2m1q''))\<lparr>idb_tasks := [escaped_task]\<rparr>) ''a'')
     = Some (Some ''R&amp;D'', Some 1000) \<and>
   map_option (\<lambda>t. (title t, updatedAt t))
     (persisted_task (snd (importData
          (snd (exportData ascii_platform
                  ((fresh (\<lambda>n. 200000000 + int n) (\<lambda>n. ''k3j9x2m1q''))\<lparr>idb_tasks := [escaped_task]\<rparr>)))
          (fst (exportData ascii_platform
                  ((fresh (\<lambda>n. 200000000 + int n) (\<lambda>n. ''k3j9x2m1q''))\<lparr>idb_tasks := [escaped_task]\<rparr>)))))
        ''a'')
     = Some (Some ''R&amp;amp;D'', Some 203600001)"
proof -
  let ?s = "(fresh (\<lambda>n. 200000000 + int n) (\<lambda>n. ''k3j9x2m1q''))\<lparr>idb_tasks := [escaped_task]\<rparr>"
  let ?s1 = "?s\<lparr>ticks := Suc (ticks ?s)\<rparr>"
  have db: "db ?s" by (simp add: fresh_def)
  have "fst (getTasks ascii_platform ?s no_filters) = array_sort compareTasks (idb_tasks ?s)"
    by (rule getTasks_db_all [OF db])
  then have ts: "fst (getTasks ascii_platform ?s no_filters) = [escaped_task]"
    by (simp add: array_sort_def)
  have nb: "\<not> blank_title escaped_task"
    using escaped_task_saved_form by (rule saved_form_not_blank)
  have nbs: "\<forall>t \<in> set [escaped_task]. \<not> blank_title t" using nb by simp
  have ex: "snd (exportData ascii_platform ?s) = ?s1"
           "\<exists>d. fst (exportData ascii_platform ?s) = Document d \<and> doc_tasks d = Some [escaped_task]"
    by (simp_all add: exportData_closed ts)
  then obtain d where d: "fst (exportData ascii_platform ?s) = Document d" "doc_tasks d = Some [escaped_task]"
    by blast
  have "persisted_task (snd (importData ?s1 (Document d))) ''a''
          = persisted_task (snd (import_tasks ?s1 [escaped_task])) ''a''"
    by (rule importData_success(2) [OF d(2) nbs])
  also have "\<dots> = persisted_task (snd (saveTask ?s1 escaped_task)) ''a''"
    unfolding import_tasks_Cons_ok [OF nb] by simp
  also have "\<dots> = Some (stamped ?s1 escaped_task)"
  proof -
    have i: "task_id (stamped ?s1 escaped_task) = Some ''a''"
      by (simp add: stamped_fields escaped_task_def sample_task_def nonempty_def)
    show ?thesis unfolding saveTask_persisted_task [OF nb] i by simp
  qed
  finally have after: "persisted_task (snd (importData ?s1 (Document d))) ''a'' = Some (stamped ?s1 escaped_task)" .
  have f: "title (stamped ?s1 escaped_task) = Some ''R&amp;amp;D''"
          "updatedAt (stamped ?s1 escaped_task) = Some 203600001"
    by (simp_all add: stamped_fields escaped_task_def sample_task_def sanitizeHtml_def escape_char_def
        stamp_reads_def nonempty_def fresh_def)
  have before: "map_option (\<lambda>t. (title t, updatedAt t)) (persisted_task ?s ''a'') = Some (Some ''R&amp;D'', Some 1000)"
    by (simp add: escaped_task_persisted) (simp add: escaped_task_def sample_task_def)
  show ?thesis
    using before after f by (simp add: ex(1) d(1))
qed

subsection \<open>The fallback store\<close>

text \<open>
  Without the database, \<^verbatim>\<open>saveTask\<close> writes under the key \<^verbatim>\<open>tasks_\<close> followed by the
  id, while \<^verbatim>\<open>getTasks\<close> reads the key \<^verbatim>\<open>tasks\<close>: a task saved into an empty
  key-value store is not listed. This is why the statements on export and cleanup above
  are about the database.
\<close>

lemma kv_key_not_bare: "i \<noteq> [] \<Longrightarrow> kv_key n (Some i) \<noteq> n"
  by (simp add: kv_key_def)

lemma fallback_getTasks_misses_saved_task:
  assumes "\<not> blank_title t"
  shows "fst (getTasks pf (snd (saveTask (fresh_fallback c r) t)) no_filters) = []"
proof -
  obtain i where i: "task_id (stamped (fresh_fallback c r) t) = Some i" "i \<noteq> []"
    using nonempty_stamped_id [of "fresh_fallback c r" t] by (auto simp: nonempty_def split: option.splits)
  let ?s0 = "fresh_fallback c r"
  have nodb: "\<not> db ?s0" and empty: "kv_tasks ?s0 = Map.empty"
    by (simp_all add: fresh_fallback_def fresh_def)
  have "getFromStore_tasks (snd (saveTask ?s0 t)) None =
          getFromStore_tasks (saveToStore_tasks (advance ?s0 (stamp_reads t) (id_draws t)) (stamped ?s0 t)) None"
    by (simp only: saveTask_state [OF assms] trackEvent_tasks)
  also have "\<dots> = ((kv_tasks ?s0)(kv_key ''tasks'' (Some i) \<mapsto> Rec (stamped ?s0 t))) ''tasks''"
    using nodb by (simp add: getFromStore_tasks_def saveToStore_tasks_def advance_def i(1)) (simp add: kv_key_def)
  also have "\<dots> = None"
    using kv_key_not_bare [OF i(2), of "''tasks''"] by (simp add: empty)
  finally have "getFromStore_tasks (snd (saveTask (fresh_fallback c r) t)) None = None" .
  then show ?thesis
    by (simp add: getTasks_def filtered_tasks_def no_filters_def nonempty_def as_array_def array_sort_def
        split_def Let_def)
qed

end
